theory Spec2Isabelle
  imports Main "HOL-Library.Word"
begin

unbundle bit_operations_syntax

section \<open>Data model of src/Client.ts\<close>

text \<open>
  The client is a class with private mutable fields, driven by calls of \<open>sendMessage\<close>
  and by the events of its transport. Each method is a function from the client's state
  to its new state. What the methods obtain from their surroundings is part of that
  state: the random source, the clock (every \<open>DateTime.now()\<close> is one reading), the
  codec, and the ready state of the transport. What they do to their surroundings is
  appended to a history, in program order: the transports they construct, the frames they
  write, the lines they report and the resolvers they call. The history also holds the
  deletions from the registry, so that the order of a deletion and of the call of the
  resolver can be read from it.
\<close>

type_synonym Long = "64 word"
type_synonym Uint8Array = "8 word list"
type_synonym objectId = string

datatype LineType = lineTypeLog | lineTypeError

datatype Request =
    AddPageLine "string list" objectId LineType
  | OtherRequest string

datatype Result =
    addPageLineResult
  | OtherResult string

datatype Error = Error string

text \<open>\<open>DateTime\<close> values are kept as their \<open>toMillis()\<close>.\<close>

record IPendingSentInformation =
  date :: int
  expiresAt :: int

text \<open>
  The \<open>resolve\<close> field stands for the closure over the promise made by one
  \<open>sendMessage\<close> call: the number of that promise.
\<close>

record IPending =
  requestId :: Long
  acknowledged :: bool
  request :: Request
  maxRetryCount :: int
  retries :: "IPendingSentInformation list"
  sent :: "IPendingSentInformation option"
  resolve :: nat

record ICloseEvent =
  code :: int
  reason :: string
  wasClean :: bool

record IWebSocketConstructor =
  CONNECTING :: nat
  OPEN :: nat
  CLOSING :: nat
  CLOSED :: nat

record IWebSocket =
  sockId :: nat
  sockUrl :: string
  readyState :: nat
  binaryType :: string
  listeners :: "string list"

text \<open>The outbound frame before encoding: request id, payload, session id.\<close>

datatype ClientMessage = messageRequest string Request string

datatype ServerMessage =
    acknowledgeMessage string
  | messageProtocolError string
  | messageResultError string Error
  | messageResultSuccess string Result
  | otherMessage string

datatype MessageData = NotArrayBuffer | ArrayBuffer Uint8Array

text \<open>One value per call site of \<open>this.#logger.error\<close>, with the arguments passed there.\<close>

datatype LogLine =
    ReceivedErrorEvent
  | ReceivedCloseEvent ICloseEvent
  | FailedToDecode Uint8Array
  | FailedToFindAcknowledged string
  | AlreadyAcknowledged IPending
  | ReceivedProtocolError ServerMessage
  | FailedToFindRequest string
  | FailedToProcess ServerMessage

datatype Event =
    EvConstruct nat string
  | EvSend nat Uint8Array
  | EvLoggerError LogLine
  | EvDelete string
  | EvResolve nat "Result + Error"

record Client =
  WebSocket :: IWebSocketConstructor
  url :: string
  codecEncode :: "ClientMessage \<Rightarrow> Uint8Array"
  codecDecode :: "Uint8Array \<Rightarrow> ServerMessage option"
  getRandomValues :: "nat \<Rightarrow> Uint8Array"
  randomCalls :: nat
  clock :: "nat \<Rightarrow> int"
  clockReads :: nat
  pending :: "(string \<times> IPending) list"
  session :: "Long option"
  connection :: "IWebSocket option"
  socketCount :: nat
  promiseCount :: nat
  history :: "Event list"

section \<open>The surroundings\<close>

definition DateTime_now :: "Client \<Rightarrow> int \<times> Client" where
  "DateTime_now w = (clock w (clockReads w), w\<lparr>clockReads := Suc (clockReads w)\<rparr>)"

definition byteAt :: "Uint8Array \<Rightarrow> nat \<Rightarrow> Long" where
  "byteAt bs i = (if i < length bs then ucast (bs ! i) else 0)"

text \<open>\<open>Long.fromBytesLE(bytes, true)\<close>: a byte that is missing counts as 0.\<close>

definition fromBytesLE :: "Uint8Array \<Rightarrow> Long" where
  "fromBytesLE bs =
     byteAt bs 0 OR push_bit 8 (byteAt bs 1) OR push_bit 16 (byteAt bs 2)
       OR push_bit 24 (byteAt bs 3) OR push_bit 32 (byteAt bs 4)
       OR push_bit 40 (byteAt bs 5) OR push_bit 48 (byteAt bs 6)
       OR push_bit 56 (byteAt bs 7)"

definition digitChar :: "nat \<Rightarrow> char" where
  "digitChar d =
     (if d = 0 then CHR ''0'' else if d = 1 then CHR ''1'' else if d = 2 then CHR ''2''
      else if d = 3 then CHR ''3'' else if d = 4 then CHR ''4'' else if d = 5 then CHR ''5''
      else if d = 6 then CHR ''6'' else if d = 7 then CHR ''7'' else if d = 8 then CHR ''8''
      else CHR ''9'')"

fun natToString :: "nat \<Rightarrow> string" where
  "natToString n =
     (if n < 10 then [digitChar n] else natToString (n div 10) @ [digitChar (n mod 10)])"

declare natToString.simps [simp del]

text \<open>\<open>Long.prototype.toString()\<close> of an unsigned value: its decimal digits.\<close>

definition toString :: "Long \<Rightarrow> string" where
  "toString l = natToString (unat l)"

definition randomLong :: "Client \<Rightarrow> Long \<times> Client" where
  "randomLong w =
     (fromBytesLE (getRandomValues w (randomCalls w)),
      w\<lparr>randomCalls := Suc (randomCalls w)\<rparr>)"

definition loggerError :: "LogLine \<Rightarrow> Client \<Rightarrow> Client" where
  "loggerError l w = w\<lparr>history := history w @ [EvLoggerError l]\<rparr>"

text \<open>
  The registry is a JavaScript \<open>Map\<close>: keys in insertion order, \<open>set\<close> on a key that is
  present replaces the value where it stands.
\<close>

fun pendingSet :: "string \<Rightarrow> IPending \<Rightarrow> (string \<times> IPending) list \<Rightarrow> (string \<times> IPending) list" where
  "pendingSet k v [] = [(k, v)]"
| "pendingSet k v ((k', v') # ps) =
     (if k' = k then (k, v) # ps else (k', v') # pendingSet k v ps)"

definition pendingGet :: "(string \<times> IPending) list \<Rightarrow> string \<Rightarrow> IPending option" where
  "pendingGet ps k = map_of ps k"

definition pendingDelete :: "string \<Rightarrow> (string \<times> IPending) list \<Rightarrow> (string \<times> IPending) list" where
  "pendingDelete k ps = filter (\<lambda>e. fst e \<noteq> k) ps"

section \<open>The methods of the client\<close>

definition newClient ::
  "string \<Rightarrow> IWebSocketConstructor \<Rightarrow> (ClientMessage \<Rightarrow> Uint8Array) \<Rightarrow>
   (Uint8Array \<Rightarrow> ServerMessage option) \<Rightarrow> (nat \<Rightarrow> Uint8Array) \<Rightarrow> (nat \<Rightarrow> int) \<Rightarrow> Client" where
  "newClient u ws enc dec rnd clk =
     \<lparr>WebSocket = ws, url = u, codecEncode = enc, codecDecode = dec,
      getRandomValues = rnd, randomCalls = 0, clock = clk, clockReads = 0,
      pending = [], session = None, connection = None,
      socketCount = 0, promiseCount = 0, history = []\<rparr>"

definition isConnected :: "Client \<Rightarrow> bool" where
  "isConnected w =
     (case connection w of
        None \<Rightarrow> False
      | Some c \<Rightarrow> readyState c = OPEN (WebSocket w))"

definition connect :: "Client \<Rightarrow> Client" where
  "connect w =
     (case connection w of
        Some c \<Rightarrow> w
      | None \<Rightarrow>
          w\<lparr>connection :=
               Some \<lparr>sockId = socketCount w, sockUrl = url w,
                     readyState = CONNECTING (WebSocket w),
                     binaryType = ''arraybuffer'',
                     listeners = [''close'', ''error'', ''open'', ''message'']\<rparr>,
            socketCount := Suc (socketCount w),
            history := history w @ [EvConstruct (socketCount w) (url w)]\<rparr>)"

definition send :: "Uint8Array \<Rightarrow> Client \<Rightarrow> bool \<times> Client" where
  "send v w =
     (case connection w of
        None \<Rightarrow> (False, w)
      | Some c \<Rightarrow>
          if readyState c \<noteq> OPEN (WebSocket w) then (False, w)
          else (True, w\<lparr>history := history w @ [EvSend (sockId c) v]\<rparr>))"

definition isPendingSentInformationExpired :: "IPendingSentInformation \<Rightarrow> Client \<Rightarrow> bool \<times> Client" where
  "isPendingSentInformationExpired input w =
     (let (now, w') = DateTime_now w in (now \<ge> expiresAt input, w'))"

definition lastRetryOf :: "IPendingSentInformation list \<Rightarrow> IPendingSentInformation option" where
  "lastRetryOf rs = (if rs = [] then None else Some (last rs))"

definition ensureSession :: "Client \<Rightarrow> Long \<times> Client" where
  "ensureSession w =
     (case session w of
        None \<Rightarrow> (let (l, w') = randomLong w in (l, w'\<lparr>session := Some l\<rparr>))
      | Some l \<Rightarrow> (l, w))"

text \<open>The frame of a request under a session: what \<open>this.#codec.encode\<close> returns.\<close>

definition frameOf :: "Client \<Rightarrow> IPending \<Rightarrow> Long \<Rightarrow> Uint8Array" where
  "frameOf w p sid =
     codecEncode w (messageRequest (toString (requestId p)) (request p) (toString sid))"

text \<open>
  \<open>#sendMessageRequest\<close> mutates the entry it is given, which is the object the
  registry holds: the function returns the entry as it is afterwards, and the caller
  puts it back in its place. The registry itself is not touched.
\<close>

definition sendMessageRequest :: "IPending \<Rightarrow> Client \<Rightarrow> IPending \<times> Client" where
  "sendMessageRequest p w =
     (if \<not> isConnected w then (p, connect w)
      else
        let (sid, w1) = ensureSession w;
            (isExpired, w2) =
               (case sent p of
                  None \<Rightarrow> (False, w1)
                | Some si \<Rightarrow> (let (now, w') = DateTime_now w1 in (now \<ge> expiresAt si, w')));
            encoded = frameOf w2 p sid
        in
          if isExpired then
            (let (waiting, w3) =
                   (case lastRetryOf (retries p) of
                      None \<Rightarrow> (False, w2)
                    | Some lastRetry \<Rightarrow>
                        (let (e, w') = isPendingSentInformationExpired lastRetry w2
                         in (\<not> e, w')))
             in
               if waiting then (p, w3)
               else
                 (let (ok, w4) = send encoded w3 in
                    if ok then
                      (let (d, w5) = DateTime_now w4;
                           (d', w6) = DateTime_now w5
                       in (p\<lparr>retries := retries p @ [\<lparr>date = d, expiresAt = d' + 10000\<rparr>]\<rparr>, w6))
                    else (p, w4)))
          else if sent p \<noteq> None then (p, w2)
          else
            (let (isSent, w3) = send encoded w2 in
               if isSent then
                 (let (sentAt, w4) = DateTime_now w3
                  in (p\<lparr>sent := Some \<lparr>date = sentAt, expiresAt = sentAt + 10000\<rparr>\<rparr>, w4))
               else (p, w3)))"

text \<open>
  \<open>sendMessage\<close>: the promise is made first, its executor runs at once. The result is
  the number of the promise and the new state. \<open>None\<close> for the option is the default 4.
  The entry is put in the registry and then passed to \<open>#sendMessageRequest\<close>, which
  mutates that same object: the second \<open>pendingSet\<close> puts the entry as it is after the
  pass in the place of the first.
\<close>

definition sendMessage :: "Request \<Rightarrow> int option \<Rightarrow> Client \<Rightarrow> nat \<times> Client" where
  "sendMessage r mrc w =
     (let promise = promiseCount w;
          w0 = w\<lparr>promiseCount := Suc promise\<rparr>;
          (rid, w1) = randomLong w0;
          p = \<lparr>requestId = rid, acknowledged = False, request = r,
               maxRetryCount = (case mrc of None \<Rightarrow> 4 | Some m \<Rightarrow> m),
               retries = [], sent = None, resolve = promise\<rparr>;
          w2 = w1\<lparr>pending := pendingSet (toString rid) p (pending w1)\<rparr>;
          (p', w3) = sendMessageRequest p w2
      in (promise, w3\<lparr>pending := pendingSet (toString rid) p' (pending w3)\<rparr>))"

text \<open>
  The loop of \<open>#checkPendingRequests\<close> over the values of the registry, in order. A
  pass neither adds nor removes an entry, so the entries the loop meets are those the
  registry held when it began; each is replaced where it stands by what its pass made of
  it.
\<close>

fun drivePending :: "(string \<times> IPending) list \<Rightarrow> Client \<Rightarrow> (string \<times> IPending) list \<times> Client" where
  "drivePending [] w = ([], w)"
| "drivePending ((k, p) # ps) w =
     (let (p', w') = sendMessageRequest p w;
          (ps', w'') = drivePending ps w'
      in ((k, p') # ps', w''))"

definition checkPendingRequests :: "Client \<Rightarrow> Client" where
  "checkPendingRequests w =
     (let (ps, w') = drivePending (pending w) w in w'\<lparr>pending := ps\<rparr>)"

definition onError :: "Client \<Rightarrow> Client" where
  "onError w = loggerError ReceivedErrorEvent w"

definition onOpen :: "Client \<Rightarrow> Client" where
  "onOpen w = checkPendingRequests w"

definition onClose :: "ICloseEvent \<Rightarrow> Client \<Rightarrow> Client" where
  "onClose e w = connect (loggerError (ReceivedCloseEvent e) (w\<lparr>connection := None\<rparr>))"

definition callResolve :: "IPending \<Rightarrow> Result + Error \<Rightarrow> Client \<Rightarrow> Client" where
  "callResolve p v w = w\<lparr>history := history w @ [EvResolve (resolve p) v]\<rparr>"

definition deletePending :: "string \<Rightarrow> Client \<Rightarrow> Client" where
  "deletePending k w =
     w\<lparr>pending := pendingDelete k (pending w), history := history w @ [EvDelete k]\<rparr>"

definition onMessage :: "MessageData \<Rightarrow> Client \<Rightarrow> Client" where
  "onMessage d w =
     (case d of
        NotArrayBuffer \<Rightarrow> w
      | ArrayBuffer bytes \<Rightarrow>
          (case codecDecode w bytes of
             None \<Rightarrow> loggerError (FailedToDecode bytes) w
           | Some result \<Rightarrow>
               (case result of
                  acknowledgeMessage messageId \<Rightarrow>
                    (case pendingGet (pending w) messageId of
                       None \<Rightarrow> loggerError (FailedToFindAcknowledged messageId) w
                     | Some p \<Rightarrow>
                         if acknowledged p then loggerError (AlreadyAcknowledged p) w
                         else w\<lparr>pending :=
                                  pendingSet messageId (p\<lparr>acknowledged := True\<rparr>) (pending w)\<rparr>)
                | messageProtocolError x \<Rightarrow> loggerError (ReceivedProtocolError result) w
                | messageResultError rid err \<Rightarrow>
                    (case pendingGet (pending w) rid of
                       None \<Rightarrow> loggerError (FailedToFindRequest rid) w
                     | Some p \<Rightarrow> callResolve p (Inr err) (deletePending rid w))
                | messageResultSuccess rid res \<Rightarrow>
                    (case pendingGet (pending w) rid of
                       None \<Rightarrow> loggerError (FailedToFindRequest rid) w
                     | Some p \<Rightarrow> callResolve p (Inl res) (deletePending rid w))
                | otherMessage x \<Rightarrow> loggerError (FailedToProcess result) w)))"

text \<open>The transport changes its ready state by itself, before it fires an event.\<close>

definition setReadyState :: "nat \<Rightarrow> Client \<Rightarrow> Client" where
  "setReadyState st w =
     (case connection w of
        None \<Rightarrow> w
      | Some c \<Rightarrow> w\<lparr>connection := Some (c\<lparr>readyState := st\<rparr>)\<rparr>)"

section \<open>Runs of the client\<close>

text \<open>
  Whatever happens to a client is a call of \<open>sendMessage\<close>, one of the four events of
  the transport, or the transport changing its ready state.
\<close>

datatype Action =
    ActSendMessage Request "int option"
  | ActOpen
  | ActClose ICloseEvent
  | ActError
  | ActMessage MessageData
  | ActReadyState nat

fun step :: "Action \<Rightarrow> Client \<Rightarrow> Client" where
  "step (ActSendMessage r mrc) w = snd (sendMessage r mrc w)"
| "step ActOpen w = onOpen w"
| "step (ActClose e) w = onClose e w"
| "step ActError w = onError w"
| "step (ActMessage d) w = onMessage d w"
| "step (ActReadyState st) w = setReadyState st w"

fun run :: "Action list \<Rightarrow> Client \<Rightarrow> Client" where
  "run [] w = w"
| "run (a # as) w = run as (step a w)"

section \<open>What the properties are stated with\<close>

text \<open>
  The rule of the retry window in the words of the specification: a pass may write when
  the request was never sent, or when the initial send has expired and the latest retry,
  if there is one, has expired too. \<open>now\<close> and \<open>now'\<close> are the two readings of the clock
  the pass compares with.
\<close>

definition writeAllowed :: "int \<Rightarrow> int \<Rightarrow> IPending \<Rightarrow> bool" where
  "writeAllowed now now' p =
     (case sent p of
        None \<Rightarrow> True
      | Some si \<Rightarrow>
          now \<ge> expiresAt si \<and>
          (case lastRetryOf (retries p) of None \<Rightarrow> True | Some r \<Rightarrow> now' \<ge> expiresAt r))"

fun resolvedPromises :: "Event list \<Rightarrow> nat list" where
  "resolvedPromises [] = []"
| "resolvedPromises (EvResolve n v # es) = n # resolvedPromises es"
| "resolvedPromises (e # es) = resolvedPromises es"

fun isWrite :: "Event \<Rightarrow> bool" where
  "isWrite (EvSend h v) = True"
| "isWrite e = False"

fun isWriteOrResolve :: "Event \<Rightarrow> bool" where
  "isWriteOrResolve (EvSend h v) = True"
| "isWriteOrResolve (EvResolve n v) = True"
| "isWriteOrResolve e = False"

text \<open>
  What is compared between two runs: the writes to the transport and the resolutions, in
  order, and the send and retry records of every entry of the registry.
\<close>

definition observable ::
  "Client \<Rightarrow> Event list \<times> (string \<times> IPendingSentInformation option \<times> IPendingSentInformation list) list" where
  "observable w =
     (filter isWriteOrResolve (history w),
      map (\<lambda>e. (fst e, sent (snd e), retries (snd e))) (pending w))"

fun sameButMaxRetryCount :: "Action \<Rightarrow> Action \<Rightarrow> bool" where
  "sameButMaxRetryCount (ActSendMessage r m) (ActSendMessage r' m') = (r = r')"
| "sameButMaxRetryCount a b = (a = b)"

definition forgetMaxRetryCount :: "IPending \<Rightarrow> IPending" where
  "forgetMaxRetryCount p = p\<lparr>maxRetryCount := 0\<rparr>"

fun forgetInEvent :: "Event \<Rightarrow> Event" where
  "forgetInEvent (EvLoggerError (AlreadyAcknowledged p)) =
     EvLoggerError (AlreadyAcknowledged (forgetMaxRetryCount p))"
| "forgetInEvent e = e"

definition forgetInClient :: "Client \<Rightarrow> Client" where
  "forgetInClient w =
     w\<lparr>pending := map (\<lambda>e. (fst e, forgetMaxRetryCount (snd e))) (pending w),
       history := map forgetInEvent (history w)\<rparr>"

text \<open>
  The promises that entries of the registry still hold, and the invariant of single
  resolution: no promise is held twice or resolved twice, none is both held and
  resolved, and all of them were made by \<open>sendMessage\<close>.
\<close>

definition resolvers :: "(string \<times> IPending) list \<Rightarrow> nat list" where
  "resolvers ps = map (\<lambda>e. resolve (snd e)) ps"

definition resolveOnce :: "Client \<Rightarrow> bool" where
  "resolveOnce w =
     (distinct (resolvers (pending w) @ resolvedPromises (history w))
      \<and> (\<forall>n\<in>set (resolvers (pending w) @ resolvedPromises (history w)). n < promiseCount w))"







text \<open>
  The entry \<open>sendMessage\<close> makes and the state in which it passes the entry to
  \<open>#sendMessageRequest\<close>, named to state what \<open>sendMessage\<close> does.
\<close>

definition newPending :: "Request \<Rightarrow> int option \<Rightarrow> Client \<Rightarrow> IPending" where
  "newPending r mrc w =
     \<lparr>requestId = fst (randomLong w), acknowledged = False, request = r,
      maxRetryCount = (case mrc of None \<Rightarrow> 4 | Some m \<Rightarrow> m),
      retries = [], sent = None, resolve = promiseCount w\<rparr>"

definition withPending :: "Request \<Rightarrow> int option \<Rightarrow> Client \<Rightarrow> Client" where
  "withPending r mrc w =
     w\<lparr>promiseCount := Suc (promiseCount w), randomCalls := Suc (randomCalls w),
       pending := pendingSet (toString (fst (randomLong w))) (newPending r mrc w) (pending w)\<rparr>"

section \<open>A concrete client\<close>

definition demoWebSocket :: IWebSocketConstructor where
  "demoWebSocket = \<lparr>CONNECTING = 0, OPEN = 1, CLOSING = 2, CLOSED = 3\<rparr>"

definition demoEncode :: "ClientMessage \<Rightarrow> Uint8Array" where
  "demoEncode m =
     (case m of messageRequest rid r sid \<Rightarrow> map (of_nat \<circ> of_char) (rid @ ''/'' @ sid))"

definition demoDecode :: "Uint8Array \<Rightarrow> ServerMessage option" where
  "demoDecode bs =
     (if bs = [1] then Some (acknowledgeMessage ''1'')
      else if bs = [2] then Some (messageResultSuccess ''1'' addPageLineResult)
      else if bs = [3] then Some (messageResultError ''1'' (Error ''denied''))
      else None)"

definition demoRandom :: "nat \<Rightarrow> Uint8Array" where
  "demoRandom n = [of_nat (Suc n), 0, 0, 0, 0, 0, 0, 0]"

definition demoClient :: "(nat \<Rightarrow> int) \<Rightarrow> Client" where
  "demoClient clk = newClient ''ws://host'' demoWebSocket demoEncode demoDecode demoRandom clk"

definition demoClose :: ICloseEvent where
  "demoClose = \<lparr>code = 1006, reason = [], wasClean = False\<rparr>"

section \<open>The logging facade of src/LoggerNetwork.ts\<close>

text \<open>
  \<open>#store\<close> chains one callback per line on the promise \<open>#pending\<close>, so the callbacks
  run one after the other, each when the one before has returned: a queue with one
  worker. A callback first awaits \<open>#pageId\<close>; with a page id it calls \<open>sendMessage\<close>
  and is suspended until that promise is resolved. The file holds two variants of the
  class; they differ in that the first reports on the logger it extends where the
  second has these calls commented out, which is the flag \<open>reporting\<close>. The arguments
  of a line are strings, and \<open>convert\<close> is the converter of the schema.
\<close>

datatype 'a Promise = Unsettled | Fulfilled 'a

datatype LocalLine =
    SuperLog "string list"
  | SuperError "string list"
  | SuperErrorFailedToStore "Result + Error"
  | SuperLogResult "Result + Error"

datatype Callback = Returned | Suspended nat

record LoggerNetwork =
  client :: Client
  pageId :: "objectId option Promise"
  reporting :: bool
  convert :: "string \<Rightarrow> string"
  chained :: "(LineType \<times> string list) list"
  awaited :: "nat option"
  printed :: "LocalLine list"

definition super :: "LocalLine \<Rightarrow> LoggerNetwork \<Rightarrow> LoggerNetwork" where
  "super l ln = ln\<lparr>printed := printed ln @ [l]\<rparr>"

definition LoggerNetwork_store :: "LineType \<Rightarrow> string list \<Rightarrow> LoggerNetwork \<Rightarrow> LoggerNetwork" where
  "LoggerNetwork_store lineType args ln = ln\<lparr>chained := chained ln @ [(lineType, args)]\<rparr>"

definition LoggerNetwork_log :: "string list \<Rightarrow> LoggerNetwork \<Rightarrow> LoggerNetwork" where
  "LoggerNetwork_log args ln = super (SuperLog args) (LoggerNetwork_store lineTypeLog args ln)"

definition LoggerNetwork_error :: "string list \<Rightarrow> LoggerNetwork \<Rightarrow> LoggerNetwork" where
  "LoggerNetwork_error args ln = super (SuperError args) (LoggerNetwork_store lineTypeError args ln)"

text \<open>
  The callback of \<open>#store\<close>, from the value \<open>await this.#pageId\<close> gives to the point
  where it returns or is suspended in \<open>await this.#client.sendMessage(...)\<close>.
\<close>

definition storeCallback ::
  "LineType \<Rightarrow> string list \<Rightarrow> objectId option \<Rightarrow> LoggerNetwork \<Rightarrow> Callback \<times> LoggerNetwork" where
  "storeCallback lineType args awaitedPageId ln =
     (case awaitedPageId of
        None \<Rightarrow>
          (Returned,
           if reporting ln
           then super (SuperError [''no page id available, failed to proceed'']) ln
           else ln)
      | Some pid \<Rightarrow>
          (let (promise, c) =
                 sendMessage (AddPageLine (map (convert ln) args) pid lineType) None (client ln)
           in (Suspended promise, ln\<lparr>client := c\<rparr>)))"

text \<open>The rest of the callback, run when the promise of \<open>sendMessage\<close> is resolved.\<close>

definition storeResumed :: "Result + Error \<Rightarrow> LoggerNetwork \<Rightarrow> LoggerNetwork" where
  "storeResumed result ln =
     (if reporting ln then
        (if result \<noteq> Inl addPageLineResult then super (SuperErrorFailedToStore result) ln
         else super (SuperLogResult result) ln)
      else ln)"

fun runChain :: "objectId option \<Rightarrow> (LineType \<times> string list) list \<Rightarrow> LoggerNetwork \<Rightarrow> LoggerNetwork" where
  "runChain pid [] ln = ln\<lparr>chained := []\<rparr>"
| "runChain pid ((lineType, args) # rest) ln =
     (case storeCallback lineType args pid ln of
        (Returned, ln') \<Rightarrow> runChain pid rest ln'
      | (Suspended promise, ln') \<Rightarrow> ln'\<lparr>chained := rest, awaited := Some promise\<rparr>)"

text \<open>
  The chain goes on as far as it can: nothing happens while a callback is suspended or
  the page id is not there yet.
\<close>

definition runPending :: "LoggerNetwork \<Rightarrow> LoggerNetwork" where
  "runPending ln =
     (case awaited ln of
        Some promise \<Rightarrow> ln
      | None \<Rightarrow>
          (case pageId ln of
             Unsettled \<Rightarrow> ln
           | Fulfilled pid \<Rightarrow> runChain pid (chained ln) ln))"

definition promiseResolved :: "nat \<Rightarrow> Result + Error \<Rightarrow> LoggerNetwork \<Rightarrow> LoggerNetwork" where
  "promiseResolved promise result ln =
     (if awaited ln = Some promise
      then runPending (storeResumed result (ln\<lparr>awaited := None\<rparr>))
      else ln)"

definition demoLogger :: "bool \<Rightarrow> LoggerNetwork" where
  "demoLogger r =
     \<lparr>client = demoClient (\<lambda>i. 0), pageId = Fulfilled None, reporting = r,
      convert = (\<lambda>a. a),
      chained = [(lineTypeLog, [''a'']), (lineTypeError, [''b''])],
      awaited = None, printed = []\<rparr>"

text \<open>
  The demo client after its first request has been written: the request is made while
  there is no transport, the transport opens, and the open event drives the request.
\<close>

definition demoRequest :: Request where
  "demoRequest = OtherRequest ''x''"

definition demoSent :: "(nat \<Rightarrow> int) \<Rightarrow> Client" where
  "demoSent clk =
     run [ActSendMessage demoRequest None, ActReadyState 1, ActOpen] (demoClient clk)"

definition demoEntry :: "int \<Rightarrow> IPending" where
  "demoEntry t =
     \<lparr>requestId = 1, acknowledged = False, request = demoRequest, maxRetryCount = 4,
      retries = [], sent = Some \<lparr>date = t, expiresAt = t + 10000\<rparr>, resolve = 0\<rparr>"

definition demoUnsent :: Client where
  "demoUnsent = snd (sendMessage demoRequest None (demoClient (\<lambda>i. 0)))"

definition demoAcked :: Client where
  "demoAcked = onMessage (ArrayBuffer [1]) (demoSent (\<lambda>i. 0))"

definition demoSocket :: "nat \<Rightarrow> nat \<Rightarrow> IWebSocket" where
  "demoSocket n st =
     \<lparr>sockId = n, sockUrl = ''ws://host'', readyState = st, binaryType = ''arraybuffer'',
      listeners = [''close'', ''error'', ''open'', ''message'']\<rparr>"

definition demoClock :: "int \<Rightarrow> nat \<Rightarrow> int" where
  "demoClock t i = (if i = 0 then 0 else t)"

text \<open>
  The demo client after its transport was closed and the next one has opened: the first
  reading of the clock, at the first write, is 0, and every later reading is \<open>t\<close>.
\<close>

definition demoReopened :: "int \<Rightarrow> Client" where
  "demoReopened t =
     run [ActClose demoClose, ActReadyState 1, ActOpen] (demoSent (demoClock t))"

text \<open>An entry with two retries behind it and a \<open>maxRetryCount\<close> of 1.\<close>

definition demoRetried :: IPending where
  "demoRetried =
     (demoEntry 0)\<lparr>maxRetryCount := 1,
        retries := [\<lparr>date = 10000, expiresAt = 20000\<rparr>, \<lparr>date = 20000, expiresAt = 30000\<rparr>]\<rparr>"

text \<open>
  The demo client after its first request was resolved and a second one was made and
  written: the registry holds the request with id 3, and id 1 is unknown to it.
\<close>

definition demoOther :: Client where
  "demoOther =
     run [ActMessage (ArrayBuffer [2]), ActSendMessage demoRequest None] (demoSent (\<lambda>i. 0))"

definition demoOtherEntry :: IPending where
  "demoOtherEntry =
     \<lparr>requestId = 3, acknowledged = False, request = demoRequest, maxRetryCount = 4,
      retries = [], sent = Some \<lparr>date = 0, expiresAt = 10000\<rparr>, resolve = 1\<rparr>"

section \<open>The two ends of a pass on an open transport\<close>

text \<open>
  The state after a pass that wrote the frame of \<open>p\<close> and read the clock \<open>n\<close> times,
  and after a pass that wrote nothing. They are used to state what a pass does.
\<close>

definition passWrite :: "IWebSocket \<Rightarrow> IPending \<Rightarrow> Client \<Rightarrow> nat \<Rightarrow> Client" where
  "passWrite c p w n =
     (snd (ensureSession w))
       \<lparr>clockReads := clockReads w + n,
        history := history w @ [EvSend (sockId c) (frameOf w p (fst (ensureSession w)))]\<rparr>"

definition passWait :: "Client \<Rightarrow> nat \<Rightarrow> Client" where
  "passWait w n = (snd (ensureSession w))\<lparr>clockReads := clockReads w + n\<rparr>"

section \<open>The registry\<close>

lemma pendingGet_pendingSet_same: "pendingGet (pendingSet k v ps) k = Some v"
  by (induction ps) (auto simp: pendingGet_def)

lemma pendingGet_pendingSet_other:
  "k' \<noteq> k \<Longrightarrow> pendingGet (pendingSet k v ps) k' = pendingGet ps k'"
  by (induction ps) (auto simp: pendingGet_def)

lemma pendingGet_pendingDelete_same: "pendingGet (pendingDelete k ps) k = None"
  by (induction ps) (auto simp: pendingGet_def pendingDelete_def)

lemma pendingGet_pendingDelete_other:
  "k' \<noteq> k \<Longrightarrow> pendingGet (pendingDelete k ps) k' = pendingGet ps k'"
  by (induction ps) (auto simp: pendingGet_def pendingDelete_def)

lemma pendingSet_twice: "pendingSet k v (pendingSet k v' ps) = pendingSet k v ps"
  by (induction ps) auto

section \<open>One pass of the send engine\<close>

lemmas pass_defs = sendMessageRequest_def isConnected_def ensureSession_def randomLong_def
  DateTime_now_def isPendingSentInformationExpired_def send_def frameOf_def connect_def

lemmas handler_defs = sendMessage_def checkPendingRequests_def onOpen_def onClose_def
  onError_def onMessage_def setReadyState_def loggerError_def callResolve_def
  deletePending_def pendingGet_def pendingDelete_def lastRetryOf_def

lemmas demo_defs = demoClient_def newClient_def demoWebSocket_def demoRandom_def
  demoDecode_def demoRequest_def demoEntry_def demoSocket_def demoClose_def
  fromBytesLE_def byteAt_def toString_def natToString.simps digitChar_def

lemma ensureSession_session: "session (snd (ensureSession w)) = Some (fst (ensureSession w))"
  by (simp add: ensureSession_def randomLong_def split_def split: option.splits)

lemma ensureSession_known: "session w = Some sid \<Longrightarrow> ensureSession w = (sid, w)"
  by (simp add: ensureSession_def)

lemma sendMessageRequest_not_connected:
  "\<not> isConnected w \<Longrightarrow> sendMessageRequest p w = (p, connect w)"
  by (simp add: sendMessageRequest_def)

lemma ensureSession_frame:
  "connection (snd (ensureSession w)) = connection w
   \<and> WebSocket (snd (ensureSession w)) = WebSocket w
   \<and> clock (snd (ensureSession w)) = clock w
   \<and> clockReads (snd (ensureSession w)) = clockReads w
   \<and> history (snd (ensureSession w)) = history w
   \<and> codecEncode (snd (ensureSession w)) = codecEncode w
   \<and> pending (snd (ensureSession w)) = pending w"
  by (simp add: ensureSession_def randomLong_def split_def split: option.splits)

lemma sendMessageRequest_connected:
  assumes "connection w = Some c" and "readyState c = OPEN (WebSocket w)"
  shows "sendMessageRequest p w =
     (case sent p of
        None \<Rightarrow>
          (p\<lparr>sent := Some \<lparr>date = clock w (clockReads w),
                           expiresAt = clock w (clockReads w) + 10000\<rparr>\<rparr>,
           passWrite c p w 1)
      | Some si \<Rightarrow>
          if clock w (clockReads w) < expiresAt si then (p, passWait w 1)
          else
            (case lastRetryOf (retries p) of
               None \<Rightarrow>
                 (p\<lparr>retries := retries p @
                      [\<lparr>date = clock w (clockReads w + 1),
                        expiresAt = clock w (clockReads w + 2) + 10000\<rparr>]\<rparr>,
                  passWrite c p w 3)
             | Some lastRetry \<Rightarrow>
                 if clock w (clockReads w + 1) < expiresAt lastRetry then (p, passWait w 2)
                 else
                   (p\<lparr>retries := retries p @
                        [\<lparr>date = clock w (clockReads w + 2),
                          expiresAt = clock w (clockReads w + 3) + 10000\<rparr>]\<rparr>,
                    passWrite c p w 4)))"
proof -
  obtain sid w1 where es: "ensureSession w = (sid, w1)"
    by (cases "ensureSession w")
  have w1: "connection w1 = Some c" "WebSocket w1 = WebSocket w" "clock w1 = clock w"
    "clockReads w1 = clockReads w" "history w1 = history w" "codecEncode w1 = codecEncode w"
    using ensureSession_frame [of w] assms by (simp_all add: es)
  have conn: "isConnected w"
    using assms by (simp add: isConnected_def)
  show ?thesis
  proof (cases "sent p")
    case None
    then show ?thesis
      using conn assms
      by (simp add: sendMessageRequest_def es w1 send_def DateTime_now_def frameOf_def
            passWrite_def)
  next
    case (Some si)
    show ?thesis
    proof (cases "clock w (clockReads w) < expiresAt si")
      case True
      then show ?thesis
        using conn assms Some
        by (simp add: sendMessageRequest_def es w1 DateTime_now_def passWait_def)
    next
      case False
      show ?thesis
      proof (cases "lastRetryOf (retries p)")
        case None
        then show ?thesis
          using conn assms Some False
          by (simp add: sendMessageRequest_def es w1 send_def DateTime_now_def frameOf_def
                passWrite_def eval_nat_numeral)
      next
        case (Some lastRetry)
        then show ?thesis
          using conn assms \<open>sent p = Some si\<close> False
          by (simp add: sendMessageRequest_def es w1 send_def DateTime_now_def frameOf_def
                isPendingSentInformationExpired_def passWrite_def passWait_def
                eval_nat_numeral)
      qed
    qed
  qed
qed

lemma passWrite_fields:
  "connection w = Some c \<Longrightarrow>
   history (passWrite c p w n)
     = history w @ [EvSend (sockId c) (frameOf w p (fst (ensureSession w)))]
   \<and> clockReads (passWrite c p w n) = clockReads w + n
   \<and> session (passWrite c p w n) = Some (fst (ensureSession w))
   \<and> connection (passWrite c p w n) = Some c
   \<and> WebSocket (passWrite c p w n) = WebSocket w
   \<and> clock (passWrite c p w n) = clock w
   \<and> codecEncode (passWrite c p w n) = codecEncode w"
  using ensureSession_frame [of w] ensureSession_session [of w]
  by (simp add: passWrite_def)

lemma passWait_fields:
  "connection w = Some c \<Longrightarrow>
   history (passWait w n) = history w
   \<and> clockReads (passWait w n) = clockReads w + n
   \<and> session (passWait w n) = Some (fst (ensureSession w))
   \<and> connection (passWait w n) = Some c
   \<and> WebSocket (passWait w n) = WebSocket w
   \<and> clock (passWait w n) = clock w
   \<and> codecEncode (passWait w n) = codecEncode w"
  using ensureSession_frame [of w] ensureSession_session [of w]
  by (simp add: passWait_def)

lemma sendMessageRequest_env:
  "WebSocket (snd (sendMessageRequest p w)) = WebSocket w
     \<and> url (snd (sendMessageRequest p w)) = url w
     \<and> codecEncode (snd (sendMessageRequest p w)) = codecEncode w
     \<and> codecDecode (snd (sendMessageRequest p w)) = codecDecode w
     \<and> clock (snd (sendMessageRequest p w)) = clock w
     \<and> getRandomValues (snd (sendMessageRequest p w)) = getRandomValues w
     \<and> pending (snd (sendMessageRequest p w)) = pending w
     \<and> promiseCount (snd (sendMessageRequest p w)) = promiseCount w"
  by (simp add: pass_defs Let_def split_def split: option.splits)

lemma sendMessageRequest_entry:
  "requestId (fst (sendMessageRequest p w)) = requestId p
     \<and> request (fst (sendMessageRequest p w)) = request p
     \<and> acknowledged (fst (sendMessageRequest p w)) = acknowledged p
     \<and> maxRetryCount (fst (sendMessageRequest p w)) = maxRetryCount p
     \<and> resolve (fst (sendMessageRequest p w)) = resolve p"
  by (simp add: pass_defs Let_def split_def split: option.splits)

lemma resolvedPromises_append:
  "resolvedPromises (xs @ ys) = resolvedPromises xs @ resolvedPromises ys"
  by (induction xs rule: resolvedPromises.induct) auto

lemma sendMessageRequest_resolved:
  "resolvedPromises (history (snd (sendMessageRequest p w))) = resolvedPromises (history w)"
  by (simp add: pass_defs Let_def split_def resolvedPromises_append split: option.splits)

section \<open>The demo client, evaluated\<close>

lemma demoClient_state:
  "demoClient clk =
     \<lparr>WebSocket = demoWebSocket, url = ''ws://host'', codecEncode = demoEncode,
      codecDecode = demoDecode, getRandomValues = demoRandom, randomCalls = 0,
      clock = clk, clockReads = 0, pending = [], session = None, connection = None,
      socketCount = 0, promiseCount = 0, history = []\<rparr>"
  by (simp add: demoClient_def newClient_def)

lemma demoSent_state:
  "demoSent clk =
     \<lparr>WebSocket = demoWebSocket, url = ''ws://host'', codecEncode = demoEncode,
      codecDecode = demoDecode, getRandomValues = demoRandom, randomCalls = 2,
      clock = clk, clockReads = 1,
      pending = [(''1'', demoEntry (clk 0))], session = Some 2,
      connection = Some (demoSocket 0 1), socketCount = 1, promiseCount = 1,
      history = [EvConstruct 0 ''ws://host'',
                 EvSend 0 (demoEncode (messageRequest ''1'' demoRequest ''2''))]\<rparr>"
  by (simp add: demoSent_def demo_defs pass_defs handler_defs Let_def)

lemma demoUnsent_state:
  "demoUnsent =
     \<lparr>WebSocket = demoWebSocket, url = ''ws://host'', codecEncode = demoEncode,
      codecDecode = demoDecode, getRandomValues = demoRandom, randomCalls = 1,
      clock = (\<lambda>i. 0), clockReads = 0,
      pending = [(''1'', (demoEntry 0)\<lparr>sent := None\<rparr>)], session = None,
      connection = Some (demoSocket 0 0), socketCount = 1, promiseCount = 1,
      history = [EvConstruct 0 ''ws://host'']\<rparr>"
  by (simp add: demoUnsent_def demo_defs pass_defs handler_defs Let_def)

lemma demoAcked_state:
  "demoAcked =
     \<lparr>WebSocket = demoWebSocket, url = ''ws://host'', codecEncode = demoEncode,
      codecDecode = demoDecode, getRandomValues = demoRandom, randomCalls = 2,
      clock = (\<lambda>i. 0), clockReads = 1,
      pending = [(''1'', (demoEntry 0)\<lparr>acknowledged := True\<rparr>)], session = Some 2,
      connection = Some (demoSocket 0 1), socketCount = 1, promiseCount = 1,
      history = [EvConstruct 0 ''ws://host'',
                 EvSend 0 (demoEncode (messageRequest ''1'' demoRequest ''2''))]\<rparr>"
  by (simp add: demoAcked_def demoSent_state onMessage_def demoDecode_def pendingGet_def
        demoEntry_def)

lemma demoOther_state:
  "demoOther =
     \<lparr>WebSocket = demoWebSocket, url = ''ws://host'', codecEncode = demoEncode,
      codecDecode = demoDecode, getRandomValues = demoRandom, randomCalls = 3,
      clock = (\<lambda>i. 0), clockReads = 2,
      pending = [(''3'', demoOtherEntry)], session = Some 2,
      connection = Some (demoSocket 0 1), socketCount = 1, promiseCount = 2,
      history = [EvConstruct 0 ''ws://host'',
                 EvSend 0 (demoEncode (messageRequest ''1'' demoRequest ''2'')),
                 EvDelete ''1'', EvResolve 0 (Inl addPageLineResult),
                 EvSend 0 (demoEncode (messageRequest ''3'' demoRequest ''2''))]\<rparr>"
  by (simp add: demoOther_def demoOtherEntry_def demoSent_state demo_defs pass_defs handler_defs
        Let_def)

section \<open>The dispatcher\<close>

text \<open>
  C6. An Acknowledge frame for an entry that is acknowledged already appends one report
  to the history and changes nothing else: the entry is as it was, with
  \<open>acknowledged\<close> true, and so is the rest of the client. Handling the same Acknowledge
  frame a second time never changes the registry.
\<close>

theorem acknowledge_again_only_reports:
  "(codecDecode w bytes = Some (acknowledgeMessage k) \<and> pendingGet (pending w) k = Some p
      \<and> acknowledged p \<longrightarrow>
       onMessage (ArrayBuffer bytes) w
         = w\<lparr>history := history w @ [EvLoggerError (AlreadyAcknowledged p)]\<rparr>
       \<and> pendingGet (pending (onMessage (ArrayBuffer bytes) w)) k = Some p)
   \<and> (codecDecode w bytes = Some (acknowledgeMessage k) \<longrightarrow>
       pending (onMessage (ArrayBuffer bytes) (onMessage (ArrayBuffer bytes) w))
         = pending (onMessage (ArrayBuffer bytes) w))"
  by (auto simp: onMessage_def loggerError_def pendingGet_pendingSet_same pendingSet_twice
        split: option.splits)

theorem acknowledge_again_only_reports_witness:
  "codecDecode demoAcked [1] = Some (acknowledgeMessage ''1'')
   \<and> pendingGet (pending demoAcked) ''1'' = Some ((demoEntry 0)\<lparr>acknowledged := True\<rparr>)
   \<and> acknowledged ((demoEntry 0)\<lparr>acknowledged := True\<rparr>)
   \<and> onMessage (ArrayBuffer [1]) demoAcked
     = demoAcked\<lparr>history := history demoAcked
         @ [EvLoggerError (AlreadyAcknowledged ((demoEntry 0)\<lparr>acknowledged := True\<rparr>))]\<rparr>
   \<and> pending (onMessage (ArrayBuffer [1]) demoAcked)
     = [(''1'', (demoEntry 0)\<lparr>acknowledged := True\<rparr>)]"
  using acknowledge_again_only_reports
    [of demoAcked "[1]" "''1''" "(demoEntry 0)\<lparr>acknowledged := True\<rparr>"]
  by (simp add: demoAcked_state demoDecode_def pendingGet_def)

text \<open>
  C8. An Acknowledge, ResultSuccess or ResultError frame whose id is not in the registry
  appends one report to the history and changes nothing else: the registry with all its
  entries is as it was, and no resolver is called.
\<close>

theorem unknown_id_only_reports:
  "pendingGet (pending w) k = None \<Longrightarrow>
   (codecDecode w bytes = Some (acknowledgeMessage k) \<longrightarrow>
      onMessage (ArrayBuffer bytes) w
        = w\<lparr>history := history w @ [EvLoggerError (FailedToFindAcknowledged k)]\<rparr>)
   \<and> (codecDecode w bytes = Some (messageResultSuccess k res) \<longrightarrow>
      onMessage (ArrayBuffer bytes) w
        = w\<lparr>history := history w @ [EvLoggerError (FailedToFindRequest k)]\<rparr>)
   \<and> (codecDecode w bytes = Some (messageResultError k err) \<longrightarrow>
      onMessage (ArrayBuffer bytes) w
        = w\<lparr>history := history w @ [EvLoggerError (FailedToFindRequest k)]\<rparr>)"
  by (simp add: onMessage_def loggerError_def)

text \<open>
  The witness is the demo client after its first request was resolved: a transport is
  open, the request with id 3 is pending, and the server names id 1 once more.
\<close>

theorem unknown_id_only_reports_witness:
  "pending demoOther = [(''3'', demoOtherEntry)]
   \<and> connection demoOther = Some (demoSocket 0 1)
   \<and> pendingGet (pending demoOther) ''1'' = None
   \<and> codecDecode demoOther [1] = Some (acknowledgeMessage ''1'')
   \<and> codecDecode demoOther [2] = Some (messageResultSuccess ''1'' addPageLineResult)
   \<and> codecDecode demoOther [3] = Some (messageResultError ''1'' (Error ''denied''))
   \<and> onMessage (ArrayBuffer [1]) demoOther
       = demoOther\<lparr>history := history demoOther
                        @ [EvLoggerError (FailedToFindAcknowledged ''1'')]\<rparr>
   \<and> onMessage (ArrayBuffer [2]) demoOther
       = demoOther\<lparr>history := history demoOther @ [EvLoggerError (FailedToFindRequest ''1'')]\<rparr>
   \<and> onMessage (ArrayBuffer [3]) demoOther
       = demoOther\<lparr>history := history demoOther @ [EvLoggerError (FailedToFindRequest ''1'')]\<rparr>
   \<and> pending (onMessage (ArrayBuffer [1]) demoOther) = [(''3'', demoOtherEntry)]
   \<and> pending (onMessage (ArrayBuffer [2]) demoOther) = [(''3'', demoOtherEntry)]
   \<and> pending (onMessage (ArrayBuffer [3]) demoOther) = [(''3'', demoOtherEntry)]
   \<and> resolvedPromises (history (onMessage (ArrayBuffer [2]) demoOther))
       = resolvedPromises (history demoOther)
   \<and> resolvedPromises (history (onMessage (ArrayBuffer [3]) demoOther))
       = resolvedPromises (history demoOther)"
proof -
  have g: "pendingGet (pending demoOther) ''1'' = None"
    and p: "pending demoOther = [(''3'', demoOtherEntry)]"
    and c: "connection demoOther = Some (demoSocket 0 1)"
    and d: "codecDecode demoOther [1] = Some (acknowledgeMessage ''1'')"
      "codecDecode demoOther [2] = Some (messageResultSuccess ''1'' addPageLineResult)"
      "codecDecode demoOther [3] = Some (messageResultError ''1'' (Error ''denied''))"
    by (simp_all add: demoOther_state pendingGet_def demoDecode_def)
  note t = unknown_id_only_reports [OF g, of _ addPageLineResult "Error ''denied''"]
  have m: "onMessage (ArrayBuffer [1]) demoOther
       = demoOther\<lparr>history := history demoOther
                        @ [EvLoggerError (FailedToFindAcknowledged ''1'')]\<rparr>"
    "onMessage (ArrayBuffer [2]) demoOther
       = demoOther\<lparr>history := history demoOther @ [EvLoggerError (FailedToFindRequest ''1'')]\<rparr>"
    "onMessage (ArrayBuffer [3]) demoOther
       = demoOther\<lparr>history := history demoOther @ [EvLoggerError (FailedToFindRequest ''1'')]\<rparr>"
    using t [of "[1]"] t [of "[2]"] t [of "[3]"] d by simp_all
  from g p c d m show ?thesis
    by (simp add: resolvedPromises_append)
qed

text \<open>
  C10. A ResultSuccess or ResultError frame whose id is in the registry removes the entry
  and calls its resolver with the result or the error, whatever the entry holds: nothing
  is asked of \<open>acknowledged\<close> or of \<open>sent\<close>.
\<close>

theorem result_resolves_in_any_state:
  "pendingGet (pending w) k = Some p \<Longrightarrow>
   (codecDecode w bytes = Some (messageResultSuccess k res) \<longrightarrow>
      onMessage (ArrayBuffer bytes) w
        = w\<lparr>pending := pendingDelete k (pending w),
             history := history w @ [EvDelete k, EvResolve (resolve p) (Inl res)]\<rparr>)
   \<and> (codecDecode w bytes = Some (messageResultError k err) \<longrightarrow>
      onMessage (ArrayBuffer bytes) w
        = w\<lparr>pending := pendingDelete k (pending w),
             history := history w @ [EvDelete k, EvResolve (resolve p) (Inr err)]\<rparr>)
   \<and> pendingGet (pendingDelete k (pending w)) k = None"
  by (simp add: onMessage_def callResolve_def deletePending_def pendingGet_pendingDelete_same)

text \<open>
  The witness is an entry that was never sent and never acknowledged: the request was
  made while there was no open transport.
\<close>

theorem result_resolves_in_any_state_witness:
  "pendingGet (pending demoUnsent) ''1'' = Some ((demoEntry 0)\<lparr>sent := None\<rparr>)
   \<and> sent ((demoEntry 0)\<lparr>sent := None\<rparr>) = None
   \<and> \<not> acknowledged ((demoEntry 0)\<lparr>sent := None\<rparr>)
   \<and> codecDecode demoUnsent [2] = Some (messageResultSuccess ''1'' addPageLineResult)
   \<and> codecDecode demoUnsent [3] = Some (messageResultError ''1'' (Error ''denied''))
   \<and> pending (onMessage (ArrayBuffer [2]) demoUnsent) = []
   \<and> history (onMessage (ArrayBuffer [2]) demoUnsent)
     = [EvConstruct 0 ''ws://host'', EvDelete ''1'', EvResolve 0 (Inl addPageLineResult)]
   \<and> pending (onMessage (ArrayBuffer [3]) demoUnsent) = []
   \<and> history (onMessage (ArrayBuffer [3]) demoUnsent)
     = [EvConstruct 0 ''ws://host'', EvDelete ''1'', EvResolve 0 (Inr (Error ''denied''))]"
  using result_resolves_in_any_state
      [of demoUnsent "''1''" "(demoEntry 0)\<lparr>sent := None\<rparr>" "[2]" addPageLineResult
          "Error ''denied''"]
    result_resolves_in_any_state
      [of demoUnsent "''1''" "(demoEntry 0)\<lparr>sent := None\<rparr>" "[3]" addPageLineResult
          "Error ''denied''"]
  by (simp add: demoUnsent_state demoDecode_def pendingGet_def pendingDelete_def demoEntry_def)

section \<open>The loop over the registry\<close>

lemma drivePending_keys: "map fst (fst (drivePending ps w)) = map fst ps"
  by (induction ps arbitrary: w) (auto simp: split_def Let_def)

lemma pass_connected_facts:
  assumes "connection w = Some c" and "readyState c = OPEN (WebSocket w)"
  shows "connection (snd (sendMessageRequest p w)) = Some c"
    and "session (snd (sendMessageRequest p w)) = Some (fst (ensureSession w))"
    and "clockReads w \<le> clockReads (snd (sendMessageRequest p w))"
    and "history (snd (sendMessageRequest p w)) =
           history w @
             (if writeAllowed (clock w (clockReads w)) (clock w (Suc (clockReads w))) p
              then [EvSend (sockId c) (frameOf w p (fst (ensureSession w)))] else [])"
  using passWrite_fields [OF assms(1)] passWait_fields [OF assms(1)]
  by (simp_all add: sendMessageRequest_connected [OF assms] writeAllowed_def
        split: option.splits)

lemma drivePending_frozen:
  assumes "connection w = Some c" and "readyState c = OPEN (WebSocket w)"
    and "\<forall>i\<ge>clockReads w. clock w i = now"
  shows "history (snd (drivePending ps w)) =
           history w @
             map (\<lambda>p. EvSend (sockId c) (frameOf w p (fst (ensureSession w))))
               (filter (writeAllowed now now) (map snd ps))"
  using assms
proof (induction ps arbitrary: w)
  case Nil
  then show ?case by simp
next
  case (Cons e ps)
  obtain k p where e: "e = (k, p)" by (cases e)
  let ?w' = "snd (sendMessageRequest p w)"
  note facts = pass_connected_facts [OF Cons.prems(1,2), of p]
  note env = sendMessageRequest_env [of p w]
  have open': "readyState c = OPEN (WebSocket ?w')"
    using Cons.prems(2) env by simp
  have frozen': "\<forall>i\<ge>clockReads ?w'. clock ?w' i = now"
    using Cons.prems(3) facts(3) env by simp
  have sess: "fst (ensureSession ?w') = fst (ensureSession w)"
    using ensureSession_known [OF facts(2)] by simp
  have fr: "\<And>q sid. frameOf ?w' q sid = frameOf w q sid"
    using env by (simp add: frameOf_def)
  have now1: "clock w (clockReads w) = now" "clock w (Suc (clockReads w)) = now"
    using Cons.prems(3) by simp_all
  have ih: "history (snd (drivePending ps ?w')) =
           history ?w' @
             map (\<lambda>p. EvSend (sockId c) (frameOf w p (fst (ensureSession w))))
               (filter (writeAllowed now now) (map snd ps))"
    using Cons.IH [OF facts(1) open' frozen'] by (simp add: sess fr)
  show ?case
    by (simp add: e split_def Let_def ih facts(4) now1)
qed

lemma drivePending_session:
  assumes "connection w = Some c" and "readyState c = OPEN (WebSocket w)"
    and "session w = Some sid"
  shows "session (snd (drivePending ps w)) = Some sid
     \<and> (\<exists>evs. history (snd (drivePending ps w)) = history w @ evs
           \<and> (\<forall>ev\<in>set evs. \<exists>p\<in>snd ` set ps. ev = EvSend (sockId c) (frameOf w p sid)))"
  using assms
proof (induction ps arbitrary: w)
  case Nil
  then show ?case by simp
next
  case (Cons e ps)
  obtain k p where e: "e = (k, p)" by (cases e)
  let ?w' = "snd (sendMessageRequest p w)"
  note facts = pass_connected_facts [OF Cons.prems(1,2), of p]
  note env = sendMessageRequest_env [of p w]
  have es: "fst (ensureSession w) = sid"
    using ensureSession_known [OF Cons.prems(3)] by simp
  have open': "readyState c = OPEN (WebSocket ?w')"
    using Cons.prems(2) env by simp
  have sess': "session ?w' = Some sid"
    using facts(2) es by simp
  have fr: "\<And>q. frameOf ?w' q sid = frameOf w q sid"
    using env by (simp add: frameOf_def)
  from Cons.IH [OF facts(1) open' sess'] obtain evs where
    s: "session (snd (drivePending ps ?w')) = Some sid"
    and h: "history (snd (drivePending ps ?w')) = history ?w' @ evs"
    and a: "\<forall>ev\<in>set evs. \<exists>p\<in>snd ` set ps. ev = EvSend (sockId c) (frameOf w p sid)"
    by (auto simp: fr)
  let ?first = "if writeAllowed (clock w (clockReads w)) (clock w (Suc (clockReads w))) p
              then [EvSend (sockId c) (frameOf w p sid)] else []"
  have "history (snd (drivePending (e # ps) w)) = history w @ (?first @ evs)"
    by (simp add: e split_def Let_def h facts(4) es)
  moreover have "\<forall>ev\<in>set (?first @ evs).
      \<exists>q\<in>snd ` set (e # ps). ev = EvSend (sockId c) (frameOf w q sid)"
    using a by (auto simp: e)
  moreover have "session (snd (drivePending (e # ps) w)) = Some sid"
    using s by (simp add: e split_def Let_def)
  ultimately show ?case by blast
qed

lemma onOpen_fields:
  "pending (onOpen w) = fst (drivePending (pending w) w)
   \<and> history (onOpen w) = history (snd (drivePending (pending w) w))
   \<and> session (onOpen w) = session (snd (drivePending (pending w) w))"
  by (simp add: onOpen_def checkPendingRequests_def split_def Let_def)

lemma reopened_state:
  "setReadyState (OPEN (WebSocket w)) (onClose e w) =
     w\<lparr>connection :=
          Some \<lparr>sockId = socketCount w, sockUrl = url w, readyState = OPEN (WebSocket w),
                binaryType = ''arraybuffer'',
                listeners = [''close'', ''error'', ''open'', ''message'']\<rparr>,
       socketCount := Suc (socketCount w),
       history := history w @ [EvLoggerError (ReceivedCloseEvent e),
                               EvConstruct (socketCount w) (url w)]\<rparr>"
  by (simp add: setReadyState_def onClose_def connect_def loggerError_def)

lemma onClose_history:
  "history (onClose e w) =
     history w @ [EvLoggerError (ReceivedCloseEvent e), EvConstruct (socketCount w) (url w)]"
  by (simp add: onClose_def connect_def loggerError_def)

section \<open>The demo client after a close and the next open\<close>

lemma demoReopened_late:
  "demoReopened 10000 =
     \<lparr>WebSocket = demoWebSocket, url = ''ws://host'', codecEncode = demoEncode,
      codecDecode = demoDecode, getRandomValues = demoRandom, randomCalls = 2,
      clock = demoClock 10000, clockReads = 4,
      pending = [(''1'', (demoEntry 0)\<lparr>retries := [\<lparr>date = 10000, expiresAt = 20000\<rparr>]\<rparr>)],
      session = Some 2,
      connection = Some (demoSocket 1 1), socketCount = 2, promiseCount = 1,
      history = [EvConstruct 0 ''ws://host'',
                 EvSend 0 (demoEncode (messageRequest ''1'' demoRequest ''2'')),
                 EvLoggerError (ReceivedCloseEvent demoClose),
                 EvConstruct 1 ''ws://host'',
                 EvSend 1 (demoEncode (messageRequest ''1'' demoRequest ''2''))]\<rparr>"
  by (simp add: demoReopened_def demoSent_state demoClock_def demo_defs pass_defs handler_defs
        Let_def)

lemma demoReopened_early:
  "demoReopened 5000 =
     \<lparr>WebSocket = demoWebSocket, url = ''ws://host'', codecEncode = demoEncode,
      codecDecode = demoDecode, getRandomValues = demoRandom, randomCalls = 2,
      clock = demoClock 5000, clockReads = 2,
      pending = [(''1'', demoEntry 0)],
      session = Some 2,
      connection = Some (demoSocket 1 1), socketCount = 2, promiseCount = 1,
      history = [EvConstruct 0 ''ws://host'',
                 EvSend 0 (demoEncode (messageRequest ''1'' demoRequest ''2'')),
                 EvLoggerError (ReceivedCloseEvent demoClose),
                 EvConstruct 1 ''ws://host'']\<rparr>"
  by (simp add: demoReopened_def demoSent_state demoClock_def demo_defs pass_defs handler_defs
        Let_def)

section \<open>The connection manager\<close>

text \<open>
  C7. The client holds at most one transport: \<open>#connect\<close> returns the state as it is
  whenever a transport is there, whatever its ready state, and constructs one only when
  there is none. A pass of the send engine made while the transport is not open does
  \<open>#connect\<close> and nothing else: the entry is unchanged and nothing is written.
\<close>

theorem connect_only_without_transport:
  "(connection w \<noteq> None \<longrightarrow> connect w = w)
   \<and> (connection w = None \<longrightarrow>
        connection (connect w) \<noteq> None
        \<and> history (connect w) = history w @ [EvConstruct (socketCount w) (url w)])
   \<and> (\<not> isConnected w \<longrightarrow>
        sendMessageRequest p w = (p, connect w)
        \<and> filter isWrite (history (snd (sendMessageRequest p w))) = filter isWrite (history w))"
  by (auto simp: connect_def sendMessageRequest_def split: option.splits)

theorem connect_only_without_transport_witness:
  "connection demoUnsent = Some (demoSocket 0 0)
   \<and> \<not> isConnected demoUnsent
   \<and> connect demoUnsent = demoUnsent
   \<and> sendMessageRequest ((demoEntry 0)\<lparr>sent := None\<rparr>) demoUnsent
       = ((demoEntry 0)\<lparr>sent := None\<rparr>, demoUnsent)
   \<and> connection (demoClient (\<lambda>i. 0)) = None
   \<and> connection (connect (demoClient (\<lambda>i. 0))) = Some (demoSocket 0 0)
   \<and> history (connect (demoClient (\<lambda>i. 0))) = [EvConstruct 0 ''ws://host'']
   \<and> history (snd (sendMessageRequest ((demoEntry 0)\<lparr>sent := None\<rparr>) (demoClient (\<lambda>i. 0))))
       = [EvConstruct 0 ''ws://host'']"
  using connect_only_without_transport [of demoUnsent "(demoEntry 0)\<lparr>sent := None\<rparr>"]
    connect_only_without_transport [of "demoClient (\<lambda>i. 0)" "(demoEntry 0)\<lparr>sent := None\<rparr>"]
  by (simp add: demoUnsent_state demoClient_state isConnected_def connect_def demoSocket_def
        demoWebSocket_def)

text \<open>
  C3, as the code has it. With one value \<open>now\<close> of the clock for the whole pass, the
  open event that follows a close drives every entry of the registry once, in order, and
  writes on the new transport the frames of exactly those entries that \<open>writeAllowed\<close>
  lets through: the ones never sent, and the ones whose initial send, and latest retry if
  any, have expired. The registry keeps all its keys.
\<close>

theorem open_drives_every_pending:
  assumes "\<forall>i\<ge>clockReads w. clock w i = now"
  shows "map fst (pending (onOpen (setReadyState (OPEN (WebSocket w)) (onClose e w))))
           = map fst (pending w)
     \<and> history (onOpen (setReadyState (OPEN (WebSocket w)) (onClose e w))) =
         history (onClose e w) @
           map (\<lambda>p. EvSend (socketCount w) (frameOf w p (fst (ensureSession w))))
             (filter (writeAllowed now now) (map snd (pending w)))"
proof -
  let ?c = "\<lparr>sockId = socketCount w, sockUrl = url w, readyState = OPEN (WebSocket w),
             binaryType = ''arraybuffer'',
             listeners = [''close'', ''error'', ''open'', ''message'']\<rparr>"
  let ?w1 = "setReadyState (OPEN (WebSocket w)) (onClose e w)"
  have conn: "connection ?w1 = Some ?c" and rs: "readyState ?c = OPEN (WebSocket ?w1)"
    and p1: "pending ?w1 = pending w"
    and h1: "history ?w1 = history (onClose e w)"
    and f1: "\<And>q sid. frameOf ?w1 q sid = frameOf w q sid"
    and e1: "fst (ensureSession ?w1) = fst (ensureSession w)"
    by (simp_all add: reopened_state onClose_history frameOf_def ensureSession_def
          randomLong_def split_def split: option.splits)
  have fz: "\<forall>i\<ge>clockReads ?w1. clock ?w1 i = now"
    using assms by (simp add: reopened_state)
  from drivePending_frozen [OF conn rs fz, of "pending w"] drivePending_keys [of "pending w" ?w1]
  show ?thesis
    by (simp add: onOpen_fields p1 h1 f1 e1)
qed

theorem open_drives_every_pending_witness:
  "history (demoReopened 10000)
     = history (onClose demoClose (demoSent (demoClock 10000))) @ [EvSend 1 (demoEncode (messageRequest ''1'' demoRequest ''2''))]
   \<and> map fst (pending (demoReopened 10000)) = [''1'']
   \<and> history (demoReopened 5000) = history (onClose demoClose (demoSent (demoClock 5000)))"
proof -
  have late: "\<forall>i\<ge>clockReads (demoSent (demoClock 10000)).
      clock (demoSent (demoClock 10000)) i = 10000"
    by (simp add: demoSent_state demoClock_def)
  have early: "\<forall>i\<ge>clockReads (demoSent (demoClock 5000)).
      clock (demoSent (demoClock 5000)) i = 5000"
    by (simp add: demoSent_state demoClock_def)
  show ?thesis
    using open_drives_every_pending [OF late, of demoClose]
      open_drives_every_pending [OF early, of demoClose]
    by (simp add: demoReopened_late demoReopened_early onClose_history demoSent_state)
qed

text \<open>
  C3 as it is stated fails: one request is pending and was written at time 0; the
  transport closes, the next one reports open, and at time 5000 the open event writes
  nothing on it.
\<close>

theorem no_write_in_open_window_counterexample:
  "pending (demoSent (demoClock 5000)) = [(''1'', demoEntry 0)]
   \<and> isConnected (demoReopened 5000)
   \<and> pending (demoReopened 5000) = [(''1'', demoEntry 0)]
   \<and> history (demoReopened 5000)
       = history (demoSent (demoClock 5000))
           @ [EvLoggerError (ReceivedCloseEvent demoClose), EvConstruct 1 ''ws://host'']
   \<and> filter isWrite (history (demoReopened 5000)) = [EvSend 0 (demoEncode (messageRequest ''1'' demoRequest ''2''))]"
  by (simp add: demoSent_state demoReopened_early isConnected_def demoSocket_def
        demoWebSocket_def demoClock_def)

section \<open>The logging facade\<close>

lemma runChain_null:
  "runChain None q ln =
     ln\<lparr>chained := [],
        printed := printed ln @
          (if reporting ln
           then replicate (length q) (SuperError [''no page id available, failed to proceed''])
           else [])\<rparr>"
proof (induction q arbitrary: ln)
  case Nil
  then show ?case by simp
next
  case (Cons t q)
  obtain lt args where t: "t = (lt, args)" by (cases t)
  show ?case
    by (simp add: t Cons.IH storeCallback_def super_def replicate_append_same)
qed

text \<open>
  C9. When the awaited page id is null, the callback of a line returns without calling
  \<open>sendMessage\<close>: the client is as it was, so no promise was made and nothing was
  written or reported there. The chain then goes on through all the lines that are
  queued, each of them handled in the same way, and ends empty with no callback
  suspended. The first variant of the class prints one line on the local logger per
  stored line, the second prints nothing.
\<close>

theorem null_page_id_stays_local:
  assumes "pageId ln = Fulfilled None" and "awaited ln = None"
  shows "storeCallback lineType args None ln =
           (Returned,
            if reporting ln
            then ln\<lparr>printed := printed ln @ [SuperError [''no page id available, failed to proceed'']]\<rparr>
            else ln)
     \<and> client (runPending ln) = client ln
     \<and> chained (runPending ln) = []
     \<and> awaited (runPending ln) = None
     \<and> printed (runPending ln) =
          printed ln @
            (if reporting ln
             then replicate (length (chained ln)) (SuperError [''no page id available, failed to proceed''])
             else [])"
  using assms by (simp add: runPending_def runChain_null storeCallback_def super_def)

theorem null_page_id_stays_local_witness:
  "pageId (demoLogger True) = Fulfilled None
   \<and> awaited (demoLogger True) = None
   \<and> chained (demoLogger True) = [(lineTypeLog, [''a'']), (lineTypeError, [''b''])]
   \<and> client (runPending (demoLogger True)) = demoClient (\<lambda>i. 0)
   \<and> history (client (runPending (demoLogger True))) = []
   \<and> promiseCount (client (runPending (demoLogger True))) = 0
   \<and> chained (runPending (demoLogger True)) = []
   \<and> printed (runPending (demoLogger True)) =
        [SuperError [''no page id available, failed to proceed''],
         SuperError [''no page id available, failed to proceed'']]
   \<and> client (runPending (demoLogger False)) = demoClient (\<lambda>i. 0)
   \<and> chained (runPending (demoLogger False)) = []
   \<and> printed (runPending (demoLogger False)) = []"
  using null_page_id_stays_local [of "demoLogger True" lineTypeLog "[]"]
    null_page_id_stays_local [of "demoLogger False" lineTypeLog "[]"]
  by (simp add: demoLogger_def demoClient_def newClient_def)

section \<open>Single resolution\<close>

lemma resolvers_pendingSet_subset:
  "set (resolvers (pendingSet k v ps)) \<subseteq> insert (resolve v) (set (resolvers ps))"
proof (induction ps)
  case Nil
  then show ?case by (simp add: resolvers_def)
next
  case (Cons e ps)
  obtain k' v' where e: "e = (k', v')" by (cases e)
  from Cons show ?case
    by (cases "k' = k") (auto simp: e resolvers_def)
qed

lemma resolvers_pendingSet_distinct:
  "distinct (resolvers ps) \<Longrightarrow> resolve v \<notin> set (resolvers ps) \<Longrightarrow>
   distinct (resolvers (pendingSet k v ps))"
proof (induction ps)
  case Nil
  then show ?case by (simp add: resolvers_def)
next
  case (Cons e ps)
  have sub: "set (resolvers (pendingSet k v ps)) \<subseteq> insert (resolve v) (set (resolvers ps))"
    by (rule resolvers_pendingSet_subset)
  obtain k' v' where e: "e = (k', v')" by (cases e)
  show ?case
  proof (cases "k' = k")
    case True
    with Cons.prems show ?thesis by (simp add: e resolvers_def)
  next
    case False
    have "distinct (resolvers (pendingSet k v ps))"
      using Cons by (simp add: resolvers_def)
    moreover have "resolve v' \<notin> set (resolvers (pendingSet k v ps))"
      using sub Cons.prems by (auto simp: e resolvers_def)
    ultimately show ?thesis
      using False by (simp add: e resolvers_def)
  qed
qed

lemma resolvers_pendingSet_same:
  "pendingGet ps k = Some p \<Longrightarrow> resolve v = resolve p \<Longrightarrow>
   resolvers (pendingSet k v ps) = resolvers ps"
  by (induction ps) (auto simp: resolvers_def pendingGet_def split: if_splits)

lemma pendingGet_in_set: "pendingGet ps k = Some p \<Longrightarrow> (k, p) \<in> set ps"
  by (simp add: pendingGet_def map_of_SomeD)

lemma resolvers_pendingDelete:
  "distinct (resolvers ps) \<Longrightarrow> (k, p) \<in> set ps \<Longrightarrow>
   distinct (resolvers (pendingDelete k ps))
   \<and> resolve p \<notin> set (resolvers (pendingDelete k ps))
   \<and> set (resolvers (pendingDelete k ps)) \<subseteq> set (resolvers ps)"
proof (induction ps)
  case Nil
  then show ?case by simp
next
  case (Cons e ps)
  have sub: "set (resolvers (pendingDelete k ps)) \<subseteq> set (resolvers ps)"
    by (auto simp: resolvers_def pendingDelete_def)
  have dist: "distinct (resolvers (pendingDelete k ps))"
    using Cons.prems(1) by (simp add: resolvers_def pendingDelete_def distinct_map_filter)
  show ?case
  proof (cases "e = (k, p)")
    case True
    then show ?thesis
      using Cons.prems(1) sub dist by (auto simp: resolvers_def pendingDelete_def)
  next
    case False
    with Cons.prems(2) have "(k, p) \<in> set ps" by simp
    with Cons.IH Cons.prems(1) have ih: "resolve p \<notin> set (resolvers (pendingDelete k ps))"
      by (simp add: resolvers_def)
    have "resolve p \<in> set (resolvers ps)"
      using \<open>(k, p) \<in> set ps\<close> by (force simp: resolvers_def)
    moreover have "resolve (snd e) \<notin> set (resolvers ps)"
      using Cons.prems(1) by (simp add: resolvers_def)
    ultimately have "resolve p \<noteq> resolve (snd e)"
      by metis
    then show ?thesis
      using Cons.prems(1) sub dist ih
      by (cases "fst e = k") (auto simp: resolvers_def pendingDelete_def)
  qed
qed

lemma drivePending_resolvers: "resolvers (fst (drivePending ps w)) = resolvers ps"
  by (induction ps arbitrary: w)
     (auto simp: resolvers_def split_def Let_def sendMessageRequest_entry)

lemma drivePending_resolved:
  "resolvedPromises (history (snd (drivePending ps w))) = resolvedPromises (history w)
   \<and> promiseCount (snd (drivePending ps w)) = promiseCount w"
  by (induction ps arbitrary: w)
     (auto simp: split_def Let_def sendMessageRequest_resolved sendMessageRequest_env)

lemma resolveOnce_new: "resolveOnce (newClient u ws enc dec rnd clk)"
  by (simp add: resolveOnce_def newClient_def resolvers_def)

lemma resolveOnce_onOpen: "resolveOnce w \<Longrightarrow> resolveOnce (onOpen w)"
  using drivePending_resolved [of "pending w" w] drivePending_resolvers [of "pending w" w]
  by (simp add: resolveOnce_def onOpen_def checkPendingRequests_def split_def Let_def)

lemma resolveOnce_onClose: "resolveOnce w \<Longrightarrow> resolveOnce (onClose e w)"
  by (simp add: resolveOnce_def onClose_def connect_def loggerError_def
        resolvedPromises_append)

lemma resolveOnce_onError: "resolveOnce w \<Longrightarrow> resolveOnce (onError w)"
  by (simp add: resolveOnce_def onError_def loggerError_def resolvedPromises_append)

lemma resolveOnce_setReadyState: "resolveOnce w \<Longrightarrow> resolveOnce (setReadyState st w)"
  by (simp add: resolveOnce_def setReadyState_def split: option.splits)

lemma resolveOnce_loggerError: "resolveOnce w \<Longrightarrow> resolveOnce (loggerError l w)"
  by (simp add: resolveOnce_def loggerError_def resolvedPromises_append)

lemma resolveOnce_resolve:
  assumes "resolveOnce w" and "pendingGet (pending w) k = Some p"
  shows "resolveOnce (callResolve p v (deletePending k w))"
proof -
  have mem: "(k, p) \<in> set (pending w)"
    using assms(2) by (rule pendingGet_in_set)
  then have inr: "resolve p \<in> set (resolvers (pending w))"
    by (force simp: resolvers_def)
  have d: "distinct (resolvers (pending w))" "distinct (resolvedPromises (history w))"
    "set (resolvers (pending w)) \<inter> set (resolvedPromises (history w)) = {}"
    using assms(1) by (simp_all add: resolveOnce_def)
  note del = resolvers_pendingDelete [OF d(1) mem]
  have "resolve p \<notin> set (resolvedPromises (history w))"
    using inr d(3) by blast
  moreover have "set (resolvers (pendingDelete k (pending w))) \<inter> set (resolvedPromises (history w)) = {}"
    using del d(3) by blast
  moreover have "\<forall>n\<in>set (resolvers (pendingDelete k (pending w))). n < promiseCount w"
    using del assms(1) by (auto simp: resolveOnce_def)
  moreover have "resolve p < promiseCount w"
    using inr assms(1) by (simp add: resolveOnce_def)
  moreover have "\<forall>n\<in>set (resolvedPromises (history w)). n < promiseCount w"
    using assms(1) by (simp add: resolveOnce_def)
  ultimately show ?thesis
    using del d
    by (auto simp: resolveOnce_def callResolve_def deletePending_def resolvedPromises_append)
qed

lemma resolveOnce_acknowledge:
  assumes "resolveOnce w" and "pendingGet (pending w) k = Some p"
  shows "resolveOnce (w\<lparr>pending := pendingSet k (p\<lparr>acknowledged := True\<rparr>) (pending w)\<rparr>)"
  using assms resolvers_pendingSet_same [OF assms(2), of "p\<lparr>acknowledged := True\<rparr>"]
  by (simp add: resolveOnce_def)

lemma resolveOnce_onMessage: "resolveOnce w \<Longrightarrow> resolveOnce (onMessage d w)"
  by (auto simp: onMessage_def resolveOnce_loggerError resolveOnce_resolve
        resolveOnce_acknowledge
        split: MessageData.splits option.splits ServerMessage.splits)

lemma sendMessage_fields:
  "\<exists>p'. resolve p' = promiseCount w
     \<and> pending (snd (sendMessage r m w))
         = pendingSet (toString (fst (randomLong w))) p' (pending w)
     \<and> promiseCount (snd (sendMessage r m w)) = Suc (promiseCount w)
     \<and> resolvedPromises (history (snd (sendMessage r m w))) = resolvedPromises (history w)"
proof -
  define w1 where "w1 = snd (randomLong (w\<lparr>promiseCount := Suc (promiseCount w)\<rparr>))"
  define rid where "rid = fst (randomLong (w\<lparr>promiseCount := Suc (promiseCount w)\<rparr>))"
  define p where "p = \<lparr>requestId = rid, acknowledged = False, request = r,
               maxRetryCount = (case m of None \<Rightarrow> 4 | Some m \<Rightarrow> m),
               retries = [], sent = None, resolve = promiseCount w\<rparr>"
  define w2 where "w2 = w1\<lparr>pending := pendingSet (toString rid) p (pending w1)\<rparr>"
  define res where "res = sendMessageRequest p w2"
  have unf: "snd (sendMessage r m w)
      = (snd res)\<lparr>pending := pendingSet (toString rid) (fst res) (pending (snd res))\<rparr>"
    by (simp add: sendMessage_def Let_def split_def res_def w2_def p_def rid_def w1_def)
  have rid: "rid = fst (randomLong w)"
    and w1: "pending w1 = pending w" "promiseCount w1 = Suc (promiseCount w)"
      "history w1 = history w"
    by (simp_all add: rid_def w1_def randomLong_def)
  have env: "pending (snd res) = pending w2" "promiseCount (snd res) = promiseCount w2"
    "resolvedPromises (history (snd res)) = resolvedPromises (history w2)"
    "resolve (fst res) = resolve p"
    using sendMessageRequest_env [of p w2] sendMessageRequest_resolved [of p w2]
      sendMessageRequest_entry [of p w2]
    by (simp_all add: res_def)
  have "resolve (fst res) = promiseCount w"
    by (simp add: env p_def)
  moreover have "pending (snd (sendMessage r m w))
      = pendingSet (toString (fst (randomLong w))) (fst res) (pending w)"
    by (simp add: unf env w2_def w1 pendingSet_twice rid)
  moreover have "promiseCount (snd (sendMessage r m w)) = Suc (promiseCount w)"
    by (simp add: unf env w2_def w1)
  moreover have "resolvedPromises (history (snd (sendMessage r m w)))
      = resolvedPromises (history w)"
    by (simp add: unf env w2_def w1)
  ultimately show ?thesis by blast
qed

lemma resolveOnce_sendMessage:
  assumes "resolveOnce w"
  shows "resolveOnce (snd (sendMessage r m w))"
proof -
  from sendMessage_fields [of w r m] obtain p' where
    p': "resolve p' = promiseCount w"
    and pe: "pending (snd (sendMessage r m w))
         = pendingSet (toString (fst (randomLong w))) p' (pending w)"
    and pc: "promiseCount (snd (sendMessage r m w)) = Suc (promiseCount w)"
    and rp: "resolvedPromises (history (snd (sendMessage r m w))) = resolvedPromises (history w)"
    by blast
  have d: "distinct (resolvers (pending w))" "distinct (resolvedPromises (history w))"
    "set (resolvers (pending w)) \<inter> set (resolvedPromises (history w)) = {}"
    and b: "\<forall>n\<in>set (resolvers (pending w)). n < promiseCount w"
      "\<forall>n\<in>set (resolvedPromises (history w)). n < promiseCount w"
    using assms by (simp_all add: resolveOnce_def)
  have fresh: "resolve p' \<notin> set (resolvers (pending w))"
    "resolve p' \<notin> set (resolvedPromises (history w))"
    using b p' by auto
  note sub = resolvers_pendingSet_subset [of "toString (fst (randomLong w))" p' "pending w"]
  have "distinct (resolvers (pendingSet (toString (fst (randomLong w))) p' (pending w)))"
    using d(1) fresh(1) by (rule resolvers_pendingSet_distinct)
  moreover have "set (resolvers (pendingSet (toString (fst (randomLong w))) p' (pending w)))
      \<inter> set (resolvedPromises (history w)) = {}"
    using sub d(3) fresh(2) by blast
  moreover have "\<forall>n\<in>set (resolvers (pendingSet (toString (fst (randomLong w))) p' (pending w))).
      n < Suc (promiseCount w)"
    using sub b(1) p' by (auto simp: less_Suc_eq)
  moreover have "\<forall>n\<in>set (resolvedPromises (history w)). n < Suc (promiseCount w)"
    using b(2) by (auto simp: less_Suc_eq)
  ultimately show ?thesis
    using d(2) by (auto simp: resolveOnce_def pe pc rp)
qed

lemma resolveOnce_step: "resolveOnce w \<Longrightarrow> resolveOnce (step a w)"
  by (cases a)
     (simp_all add: resolveOnce_sendMessage resolveOnce_onOpen resolveOnce_onClose
        resolveOnce_onError resolveOnce_onMessage resolveOnce_setReadyState)

lemma resolveOnce_run: "resolveOnce w \<Longrightarrow> resolveOnce (run as w)"
  by (induction as arbitrary: w) (simp_all add: resolveOnce_step)

lemma onMessage_cases:
  "onMessage d w = w
   \<or> (\<exists>l. onMessage d w = loggerError l w)
   \<or> (\<exists>k p. pendingGet (pending w) k = Some p
         \<and> onMessage d w = w\<lparr>pending := pendingSet k (p\<lparr>acknowledged := True\<rparr>) (pending w)\<rparr>)
   \<or> (\<exists>k p v. pendingGet (pending w) k = Some p
         \<and> onMessage d w = callResolve p v (deletePending k w))"
proof (cases d)
  case NotArrayBuffer
  then show ?thesis by (simp add: onMessage_def)
next
  case (ArrayBuffer bytes)
  show ?thesis
  proof (cases "codecDecode w bytes")
    case None
    then show ?thesis by (auto simp: ArrayBuffer onMessage_def)
  next
    case (Some result)
    then show ?thesis
      by (cases result; cases "pendingGet (pending w) (case result of
              acknowledgeMessage k \<Rightarrow> k | messageProtocolError k \<Rightarrow> k
            | messageResultError k e \<Rightarrow> k | messageResultSuccess k r \<Rightarrow> k
            | otherMessage k \<Rightarrow> k)")
         (simp_all add: ArrayBuffer onMessage_def, blast+)
  qed
qed

lemma step_resolves_removed:
  assumes "n \<in> set (resolvedPromises (history (step a w)))"
  shows "n \<in> set (resolvedPromises (history w))
     \<or> (\<exists>e\<in>set (pending w). resolve (snd e) = n
           \<and> pendingGet (pending (step a w)) (fst e) = None)"
proof (cases a)
  case (ActSendMessage r m)
  with assms sendMessage_fields [of w r m] show ?thesis by auto
next
  case ActOpen
  with assms drivePending_resolved [of "pending w" w] show ?thesis
    by (simp add: onOpen_fields)
next
  case (ActClose e)
  with assms show ?thesis
    by (simp add: onClose_history resolvedPromises_append)
next
  case ActError
  with assms show ?thesis
    by (simp add: onError_def loggerError_def resolvedPromises_append)
next
  case (ActReadyState st)
  with assms show ?thesis
    by (simp add: setReadyState_def split: option.splits)
next
  case (ActMessage d)
  have res: "n \<in> set (resolvedPromises (history w))
     \<or> (\<exists>e\<in>set (pending w). resolve (snd e) = n
           \<and> pendingGet (pending (callResolve p v (deletePending k w))) (fst e) = None)"
    if "pendingGet (pending w) k = Some p"
      and "n \<in> set (resolvedPromises (history (callResolve p v (deletePending k w))))"
    for k p v
  proof -
    have "(k, p) \<in> set (pending w)"
      using that(1) by (rule pendingGet_in_set)
    moreover have "pendingGet (pending (callResolve p v (deletePending k w))) k = None"
      by (simp add: callResolve_def deletePending_def pendingGet_pendingDelete_same)
    moreover have "n \<in> set (resolvedPromises (history w)) \<or> n = resolve p"
      using that(2)
      by (auto simp: callResolve_def deletePending_def resolvedPromises_append)
    ultimately show ?thesis by force
  qed
  from onMessage_cases [of d w] consider
    (same) "resolvedPromises (history (onMessage d w)) = resolvedPromises (history w)"
    | (resolved) k p v where "pendingGet (pending w) k = Some p"
        "onMessage d w = callResolve p v (deletePending k w)"
    by (auto simp: loggerError_def resolvedPromises_append)
  then show ?thesis
  proof cases
    case same
    with assms show ?thesis by (simp add: ActMessage)
  next
    case resolved
    with assms res [of k p v] show ?thesis by (simp add: ActMessage)
  qed
qed

text \<open>
  C2, as the code has it. In every run of a new client no promise is resolved twice. A
  ResultSuccess or ResultError frame that finds its entry first deletes the entry and
  then calls its resolver, once; the entry is gone afterwards, and the same frame again
  is only reported. Whatever the step, a promise that it resolves belonged to an entry
  that was in the registry before the step and whose key is not there after it.
\<close>

theorem resolver_called_once_after_delete:
  "distinct (resolvedPromises (history (run as (newClient u ws enc dec rnd clk))))
   \<and> (pendingGet (pending w) k = Some p
        \<and> codecDecode w bytes = Some (messageResultSuccess k res) \<longrightarrow>
        history (onMessage (ArrayBuffer bytes) w)
          = history w @ [EvDelete k, EvResolve (resolve p) (Inl res)]
        \<and> pendingGet (pending (onMessage (ArrayBuffer bytes) w)) k = None
        \<and> history (onMessage (ArrayBuffer bytes) (onMessage (ArrayBuffer bytes) w))
          = history (onMessage (ArrayBuffer bytes) w) @ [EvLoggerError (FailedToFindRequest k)])
   \<and> (pendingGet (pending w) k = Some p
        \<and> codecDecode w bytes = Some (messageResultError k err) \<longrightarrow>
        history (onMessage (ArrayBuffer bytes) w)
          = history w @ [EvDelete k, EvResolve (resolve p) (Inr err)]
        \<and> pendingGet (pending (onMessage (ArrayBuffer bytes) w)) k = None
        \<and> history (onMessage (ArrayBuffer bytes) (onMessage (ArrayBuffer bytes) w))
          = history (onMessage (ArrayBuffer bytes) w) @ [EvLoggerError (FailedToFindRequest k)])
   \<and> (\<forall>n\<in>set (resolvedPromises (history (step a w))).
        n \<in> set (resolvedPromises (history w))
        \<or> (\<exists>e\<in>set (pending w). resolve (snd e) = n
              \<and> pendingGet (pending (step a w)) (fst e) = None))"
proof -
  have a: "distinct (resolvedPromises (history (run as (newClient u ws enc dec rnd clk))))"
    using resolveOnce_run [OF resolveOnce_new, of as u ws enc dec rnd clk]
    by (simp add: resolveOnce_def)
  have b: "pendingGet (pending w) k = Some p
        \<and> codecDecode w bytes = Some (messageResultSuccess k res) \<longrightarrow>
        history (onMessage (ArrayBuffer bytes) w)
          = history w @ [EvDelete k, EvResolve (resolve p) (Inl res)]
        \<and> pendingGet (pending (onMessage (ArrayBuffer bytes) w)) k = None
        \<and> history (onMessage (ArrayBuffer bytes) (onMessage (ArrayBuffer bytes) w))
          = history (onMessage (ArrayBuffer bytes) w) @ [EvLoggerError (FailedToFindRequest k)]"
    by (simp add: onMessage_def callResolve_def deletePending_def loggerError_def
          pendingGet_pendingDelete_same)
  have c: "pendingGet (pending w) k = Some p
        \<and> codecDecode w bytes = Some (messageResultError k err) \<longrightarrow>
        history (onMessage (ArrayBuffer bytes) w)
          = history w @ [EvDelete k, EvResolve (resolve p) (Inr err)]
        \<and> pendingGet (pending (onMessage (ArrayBuffer bytes) w)) k = None
        \<and> history (onMessage (ArrayBuffer bytes) (onMessage (ArrayBuffer bytes) w))
          = history (onMessage (ArrayBuffer bytes) w) @ [EvLoggerError (FailedToFindRequest k)]"
    by (simp add: onMessage_def callResolve_def deletePending_def loggerError_def
          pendingGet_pendingDelete_same)
  have d: "\<forall>n\<in>set (resolvedPromises (history (step a w))).
        n \<in> set (resolvedPromises (history w))
        \<or> (\<exists>e\<in>set (pending w). resolve (snd e) = n
              \<and> pendingGet (pending (step a w)) (fst e) = None)"
    using step_resolves_removed by blast
  from a b c d show ?thesis by blast
qed

theorem resolver_called_once_after_delete_witness:
  "distinct (resolvedPromises (history
       (run [ActSendMessage demoRequest None, ActReadyState 1, ActOpen,
             ActMessage (ArrayBuffer [2]), ActMessage (ArrayBuffer [2])]
          (newClient ''ws://host'' demoWebSocket demoEncode demoDecode demoRandom (\<lambda>i. 0)))))
   \<and> pendingGet (pending (demoSent (\<lambda>i. 0))) ''1'' = Some (demoEntry 0)
   \<and> codecDecode (demoSent (\<lambda>i. 0)) [2] = Some (messageResultSuccess ''1'' addPageLineResult)
   \<and> codecDecode (demoSent (\<lambda>i. 0)) [3] = Some (messageResultError ''1'' (Error ''denied''))
   \<and> history (onMessage (ArrayBuffer [2]) (demoSent (\<lambda>i. 0)))
       = history (demoSent (\<lambda>i. 0)) @ [EvDelete ''1'', EvResolve 0 (Inl addPageLineResult)]
   \<and> history (onMessage (ArrayBuffer [3]) (demoSent (\<lambda>i. 0)))
       = history (demoSent (\<lambda>i. 0)) @ [EvDelete ''1'', EvResolve 0 (Inr (Error ''denied''))]
   \<and> history (onMessage (ArrayBuffer [2]) (onMessage (ArrayBuffer [2]) (demoSent (\<lambda>i. 0))))
       = history (demoSent (\<lambda>i. 0))
           @ [EvDelete ''1'', EvResolve 0 (Inl addPageLineResult),
              EvLoggerError (FailedToFindRequest ''1'')]
   \<and> resolvedPromises (history (step (ActMessage (ArrayBuffer [2])) (demoSent (\<lambda>i. 0)))) = [0]"
proof -
  have g: "pendingGet (pending (demoSent (\<lambda>i. 0))) ''1'' = Some (demoEntry 0)"
    and d2: "codecDecode (demoSent (\<lambda>i. 0)) [2]
              = Some (messageResultSuccess ''1'' addPageLineResult)"
    and d3: "codecDecode (demoSent (\<lambda>i. 0)) [3]
              = Some (messageResultError ''1'' (Error ''denied''))"
    and r: "resolve (demoEntry 0) = 0"
    by (simp_all add: demoSent_state pendingGet_def demoDecode_def demoEntry_def)
  have h: "resolvedPromises (history (demoSent (\<lambda>i. 0))) = []"
    by (simp add: demoSent_state)
  note t2 = resolver_called_once_after_delete
      [of "[ActSendMessage demoRequest None, ActReadyState 1, ActOpen,
            ActMessage (ArrayBuffer [2]), ActMessage (ArrayBuffer [2])]"
          "''ws://host''" demoWebSocket demoEncode demoDecode demoRandom "\<lambda>i. 0"
          "demoSent (\<lambda>i. 0)" "''1''" "demoEntry 0" "[2]" addPageLineResult "Error ''denied''"
          "ActMessage (ArrayBuffer [2])"]
  note t3 = resolver_called_once_after_delete
      [of "[]" "''ws://host''" demoWebSocket demoEncode demoDecode demoRandom "\<lambda>i. 0"
          "demoSent (\<lambda>i. 0)" "''1''" "demoEntry 0" "[3]" addPageLineResult "Error ''denied''"
          "ActMessage (ArrayBuffer [3])"]
  have s2: "history (onMessage (ArrayBuffer [2]) (demoSent (\<lambda>i. 0)))
       = history (demoSent (\<lambda>i. 0)) @ [EvDelete ''1'', EvResolve 0 (Inl addPageLineResult)]"
    "history (onMessage (ArrayBuffer [2]) (onMessage (ArrayBuffer [2]) (demoSent (\<lambda>i. 0))))
       = history (onMessage (ArrayBuffer [2]) (demoSent (\<lambda>i. 0)))
           @ [EvLoggerError (FailedToFindRequest ''1'')]"
    using t2 g d2 r by simp_all
  have s3: "history (onMessage (ArrayBuffer [3]) (demoSent (\<lambda>i. 0)))
       = history (demoSent (\<lambda>i. 0)) @ [EvDelete ''1'', EvResolve 0 (Inr (Error ''denied''))]"
    using t3 g d3 r by simp
  have one: "resolvedPromises (history (step (ActMessage (ArrayBuffer [2])) (demoSent (\<lambda>i. 0))))
       = [0]"
    by (simp add: s2 resolvedPromises_append h)
  from t2 g d2 d3 s2 s3 one show ?thesis by simp
qed

text \<open>
  C2 as it is stated fails in the order it gives: the resolver is not called before the
  entry is removed. \<open>onMessage\<close> deletes the entry first and calls the resolver in the
  state the deletion leaves, where the id is not in the registry any more.
\<close>

theorem resolver_after_delete_counterexample:
  "pendingGet (pending (demoSent (\<lambda>i. 0))) ''1'' = Some (demoEntry 0)
   \<and> onMessage (ArrayBuffer [2]) (demoSent (\<lambda>i. 0))
       = callResolve (demoEntry 0) (Inl addPageLineResult)
           (deletePending ''1'' (demoSent (\<lambda>i. 0)))
   \<and> pendingGet (pending (deletePending ''1'' (demoSent (\<lambda>i. 0)))) ''1'' = None
   \<and> history (deletePending ''1'' (demoSent (\<lambda>i. 0)))
       = history (demoSent (\<lambda>i. 0)) @ [EvDelete ''1'']
   \<and> history (onMessage (ArrayBuffer [2]) (demoSent (\<lambda>i. 0)))
       = history (demoSent (\<lambda>i. 0)) @ [EvDelete ''1'', EvResolve 0 (Inl addPageLineResult)]"
  by (simp add: demoSent_state onMessage_def demoDecode_def pendingGet_def deletePending_def
        callResolve_def pendingDelete_def demoEntry_def)

section \<open>The retry bound that is not consulted\<close>

lemma forget_ensureSession:
  "ensureSession (forgetInClient w) =
     (fst (ensureSession w), forgetInClient (snd (ensureSession w)))"
  by (simp add: ensureSession_def randomLong_def forgetInClient_def split_def
        split: option.splits)

lemma forget_frameOf:
  "frameOf (forgetInClient w) (forgetMaxRetryCount p) sid = frameOf w p sid"
  by (simp add: frameOf_def forgetInClient_def forgetMaxRetryCount_def)

lemma forget_passWrite:
  "passWrite c (forgetMaxRetryCount p) (forgetInClient w) n = forgetInClient (passWrite c p w n)"
  by (simp add: passWrite_def forget_ensureSession forget_frameOf)
     (simp add: forgetInClient_def)

lemma forget_passWait: "passWait (forgetInClient w) n = forgetInClient (passWait w n)"
  by (simp add: passWait_def forget_ensureSession) (simp add: forgetInClient_def)

lemma forget_connect: "connect (forgetInClient w) = forgetInClient (connect w)"
  by (simp add: connect_def forgetInClient_def split: option.splits)

lemma forget_pass:
  "sendMessageRequest (forgetMaxRetryCount p) (forgetInClient w) =
     (forgetMaxRetryCount (fst (sendMessageRequest p w)),
      forgetInClient (snd (sendMessageRequest p w)))"
proof (cases "isConnected w")
  case False
  then have "\<not> isConnected (forgetInClient w)"
    by (simp add: isConnected_def forgetInClient_def split: option.splits)
  with False show ?thesis
    by (simp add: sendMessageRequest_not_connected forget_connect)
next
  case True
  then obtain c where c: "connection w = Some c" "readyState c = OPEN (WebSocket w)"
    by (auto simp: isConnected_def split: option.splits)
  then have c': "connection (forgetInClient w) = Some c"
    "readyState c = OPEN (WebSocket (forgetInClient w))"
    by (simp_all add: forgetInClient_def)
  have same: "clock (forgetInClient w) = clock w" "clockReads (forgetInClient w) = clockReads w"
    "sent (forgetMaxRetryCount p) = sent p" "retries (forgetMaxRetryCount p) = retries p"
    by (simp_all add: forgetInClient_def forgetMaxRetryCount_def)
  have upd: "\<And>x. forgetMaxRetryCount p\<lparr>sent := x\<rparr> = forgetMaxRetryCount (p\<lparr>sent := x\<rparr>)"
    "\<And>x. forgetMaxRetryCount p\<lparr>retries := x\<rparr> = forgetMaxRetryCount (p\<lparr>retries := x\<rparr>)"
    by (simp_all add: forgetMaxRetryCount_def)
  show ?thesis
    by (simp add: sendMessageRequest_connected [OF c] sendMessageRequest_connected [OF c']
          same upd forget_passWrite forget_passWait split: option.splits)
qed

lemma forget_drive:
  "drivePending (map (\<lambda>e. (fst e, forgetMaxRetryCount (snd e))) ps) (forgetInClient w) =
     (map (\<lambda>e. (fst e, forgetMaxRetryCount (snd e))) (fst (drivePending ps w)),
      forgetInClient (snd (drivePending ps w)))"
  by (induction ps arbitrary: w) (auto simp: forget_pass split_def Let_def)

lemma forget_pending:
  "pending (forgetInClient w) = map (\<lambda>e. (fst e, forgetMaxRetryCount (snd e))) (pending w)"
  by (simp add: forgetInClient_def)

lemma forget_idem: "forgetInClient (forgetInClient w) = forgetInClient w"
proof -
  have "forgetInEvent (forgetInEvent e) = forgetInEvent e" for e
    by (induction e rule: forgetInEvent.induct) (auto simp: forgetMaxRetryCount_def)
  then show ?thesis
    by (simp add: forgetInClient_def forgetMaxRetryCount_def comp_def)
qed

lemma forget_onOpen: "onOpen (forgetInClient w) = forgetInClient (onOpen w)"
  by (simp add: onOpen_def checkPendingRequests_def forget_pending forget_drive Let_def
        split_def)
     (simp add: forgetInClient_def)

lemma forget_onClose: "onClose e (forgetInClient w) = forgetInClient (onClose e w)"
  by (simp add: onClose_def connect_def loggerError_def forgetInClient_def)

lemma forget_onError: "onError (forgetInClient w) = forgetInClient (onError w)"
  by (simp add: onError_def loggerError_def forgetInClient_def)

lemma forget_setReadyState:
  "setReadyState st (forgetInClient w) = forgetInClient (setReadyState st w)"
  by (simp add: setReadyState_def forgetInClient_def split: option.splits)

lemma forget_pendingGet:
  "pendingGet (map (\<lambda>e. (fst e, forgetMaxRetryCount (snd e))) ps) k
     = map_option forgetMaxRetryCount (pendingGet ps k)"
  by (induction ps) (auto simp: pendingGet_def)

lemma forget_pendingSet:
  "pendingSet k (forgetMaxRetryCount v) (map (\<lambda>e. (fst e, forgetMaxRetryCount (snd e))) ps)
     = map (\<lambda>e. (fst e, forgetMaxRetryCount (snd e))) (pendingSet k v ps)"
  by (induction ps) auto

lemma forget_pendingDelete:
  "pendingDelete k (map (\<lambda>e. (fst e, forgetMaxRetryCount (snd e))) ps)
     = map (\<lambda>e. (fst e, forgetMaxRetryCount (snd e))) (pendingDelete k ps)"
  by (induction ps) (auto simp: pendingDelete_def)

lemma forget_loggerError:
  "loggerError l (forgetInClient w) = forgetInClient (loggerError l w)"
  if "\<And>p. l \<noteq> AlreadyAcknowledged p"
  using that by (cases l) (auto simp: loggerError_def forgetInClient_def)

lemma forget_onMessage: "onMessage d (forgetInClient w) = forgetInClient (onMessage d w)"
proof (cases d)
  case NotArrayBuffer
  then show ?thesis by (simp add: onMessage_def)
next
  case (ArrayBuffer bytes)
  have dec: "codecDecode (forgetInClient w) = codecDecode w"
    by (simp add: forgetInClient_def)
  show ?thesis
  proof (cases "codecDecode w bytes")
    case None
    then show ?thesis
      by (simp add: ArrayBuffer onMessage_def dec forget_loggerError)
  next
    case (Some result)
    show ?thesis
    proof (cases result)
      case (acknowledgeMessage k)
      show ?thesis
      proof (cases "pendingGet (pending w) k")
        case None
        then show ?thesis
          by (simp add: ArrayBuffer Some acknowledgeMessage onMessage_def dec forget_pending
                forget_pendingGet forget_loggerError)
      next
        case (Some p)
        have u: "forgetMaxRetryCount p\<lparr>acknowledged := True\<rparr>
                   = forgetMaxRetryCount (p\<lparr>acknowledged := True\<rparr>)"
          "acknowledged (forgetMaxRetryCount p) = acknowledged p"
          by (simp_all add: forgetMaxRetryCount_def)
        show ?thesis
          using Some
          by (simp add: ArrayBuffer \<open>codecDecode w bytes = Some result\<close> acknowledgeMessage
                onMessage_def dec forget_pending forget_pendingGet u forget_pendingSet)
             (simp add: forgetInClient_def loggerError_def)
      qed
    next
      case (messageProtocolError x)
      then show ?thesis
        by (simp add: ArrayBuffer Some onMessage_def dec forget_loggerError)
    next
      case (messageResultError k err)
      show ?thesis
      proof (cases "pendingGet (pending w) k")
        case None
        then show ?thesis
          by (simp add: ArrayBuffer Some messageResultError onMessage_def dec forget_pending
                forget_pendingGet forget_loggerError)
      next
        case (Some p)
        then show ?thesis
          by (simp add: ArrayBuffer \<open>codecDecode w bytes = Some result\<close> messageResultError
                onMessage_def dec forget_pending forget_pendingGet callResolve_def
                deletePending_def forget_pendingDelete)
             (simp add: forgetInClient_def forgetMaxRetryCount_def)
      qed
    next
      case (messageResultSuccess k res)
      show ?thesis
      proof (cases "pendingGet (pending w) k")
        case None
        then show ?thesis
          by (simp add: ArrayBuffer Some messageResultSuccess onMessage_def dec forget_pending
                forget_pendingGet forget_loggerError)
      next
        case (Some p)
        then show ?thesis
          by (simp add: ArrayBuffer \<open>codecDecode w bytes = Some result\<close> messageResultSuccess
                onMessage_def dec forget_pending forget_pendingGet callResolve_def
                deletePending_def forget_pendingDelete)
             (simp add: forgetInClient_def forgetMaxRetryCount_def)
      qed
    next
      case (otherMessage x)
      then show ?thesis
        by (simp add: ArrayBuffer Some onMessage_def dec forget_loggerError)
    qed
  qed
qed

lemma forget_randomLong:
  "randomLong (forgetInClient w) = (fst (randomLong w), forgetInClient (snd (randomLong w)))"
  by (simp add: randomLong_def forgetInClient_def)

lemma forget_promiseCount:
  "forgetInClient w\<lparr>promiseCount := n\<rparr> = forgetInClient (w\<lparr>promiseCount := n\<rparr>)"
  "promiseCount (forgetInClient w) = promiseCount w"
  by (simp_all add: forgetInClient_def)

lemma forget_set_pending:
  "forgetInClient (w\<lparr>pending := pendingSet k p (pending w)\<rparr>)
     = (forgetInClient w)\<lparr>pending := pendingSet k (forgetMaxRetryCount p)
                                          (pending (forgetInClient w))\<rparr>"
  by (simp add: forget_pending forget_pendingSet) (simp add: forgetInClient_def)

text \<open>The state after \<open>sendMessage\<close>, from the forgetful images of its parts.\<close>

lemma forget_after_sendMessage:
  "forgetInClient (snd (sendMessage r m w)) =
     (let w1 = forgetInClient (snd (randomLong (w\<lparr>promiseCount := Suc (promiseCount w)\<rparr>)));
          rid = fst (randomLong (w\<lparr>promiseCount := Suc (promiseCount w)\<rparr>));
          p = \<lparr>requestId = rid, acknowledged = False, request = r, maxRetryCount = 0,
               retries = [], sent = None, resolve = promiseCount w\<rparr>;
          res = sendMessageRequest p (w1\<lparr>pending := pendingSet (toString rid) p (pending w1)\<rparr>)
      in (snd res)\<lparr>pending := pendingSet (toString rid) (fst res) (pending (snd res))\<rparr>)"
proof -
  define w1 where "w1 = snd (randomLong (w\<lparr>promiseCount := Suc (promiseCount w)\<rparr>))"
  define rid where "rid = fst (randomLong (w\<lparr>promiseCount := Suc (promiseCount w)\<rparr>))"
  define p where "p = \<lparr>requestId = rid, acknowledged = False, request = r,
               maxRetryCount = (case m of None \<Rightarrow> 4 | Some m \<Rightarrow> m),
               retries = [], sent = None, resolve = promiseCount w\<rparr>"
  define w2 where "w2 = w1\<lparr>pending := pendingSet (toString rid) p (pending w1)\<rparr>"
  define res where "res = sendMessageRequest p w2"
  have unf: "snd (sendMessage r m w)
      = (snd res)\<lparr>pending := pendingSet (toString rid) (fst res) (pending (snd res))\<rparr>"
    by (simp add: sendMessage_def Let_def split_def res_def w2_def p_def rid_def w1_def)
  have fp: "forgetMaxRetryCount p = \<lparr>requestId = rid, acknowledged = False, request = r,
               maxRetryCount = 0, retries = [], sent = None, resolve = promiseCount w\<rparr>"
    by (simp add: p_def forgetMaxRetryCount_def)
  have fw2: "forgetInClient w2 = (forgetInClient w1)\<lparr>pending :=
       pendingSet (toString rid) (forgetMaxRetryCount p) (pending (forgetInClient w1))\<rparr>"
    unfolding w2_def by (rule forget_set_pending)
  have fres: "sendMessageRequest (forgetMaxRetryCount p) (forgetInClient w2)
      = (forgetMaxRetryCount (fst res), forgetInClient (snd res))"
    unfolding res_def by (rule forget_pass)
  have "forgetInClient (snd (sendMessage r m w))
      = (forgetInClient (snd res))\<lparr>pending :=
           pendingSet (toString rid) (forgetMaxRetryCount (fst res))
             (pending (forgetInClient (snd res)))\<rparr>"
    unfolding unf by (rule forget_set_pending)
  moreover have "sendMessageRequest
        \<lparr>requestId = rid, acknowledged = False, request = r, maxRetryCount = 0,
          retries = [], sent = None, resolve = promiseCount w\<rparr>
        ((forgetInClient w1)\<lparr>pending := pendingSet (toString rid)
            \<lparr>requestId = rid, acknowledged = False, request = r, maxRetryCount = 0,
              retries = [], sent = None, resolve = promiseCount w\<rparr>
            (pending (forgetInClient w1))\<rparr>)
      = (forgetMaxRetryCount (fst res), forgetInClient (snd res))"
    using fres by (simp only: fw2 fp)
  ultimately show ?thesis
    by (simp add: Let_def w1_def [symmetric] rid_def [symmetric])
qed

lemma forget_sendMessage:
  "forgetInClient (snd (sendMessage r m (forgetInClient w)))
     = forgetInClient (snd (sendMessage r m' w))"
  by (simp add: forget_after_sendMessage forget_promiseCount forget_randomLong forget_idem
        Let_def)

lemma forget_step:
  assumes "forgetInClient w = forgetInClient w'" and "sameButMaxRetryCount a b"
  shows "forgetInClient (step a w) = forgetInClient (step b w')"
proof (cases a)
  case (ActSendMessage r m)
  with assms(2) obtain m' where b: "b = ActSendMessage r m'"
    by (cases b) auto
  have "forgetInClient (snd (sendMessage r m w))
      = forgetInClient (snd (sendMessage r m (forgetInClient w)))"
    by (rule forget_sendMessage [symmetric])
  also have "\<dots> = forgetInClient (snd (sendMessage r m (forgetInClient w')))"
    by (simp add: assms(1))
  also have "\<dots> = forgetInClient (snd (sendMessage r m' w'))"
    by (rule forget_sendMessage)
  finally show ?thesis by (simp add: ActSendMessage b)
next
  case ActOpen
  with assms(2) have b: "b = a" by auto
  show ?thesis
    using assms(1) by (simp add: b ActOpen forget_onOpen [symmetric])
next
  case (ActClose e)
  with assms(2) have b: "b = a" by auto
  show ?thesis
    using assms(1) by (simp add: b ActClose forget_onClose [symmetric])
next
  case ActError
  with assms(2) have b: "b = a" by auto
  show ?thesis
    using assms(1) by (simp add: b ActError forget_onError [symmetric])
next
  case (ActMessage d)
  with assms(2) have b: "b = a" by auto
  show ?thesis
    using assms(1) by (simp add: b ActMessage forget_onMessage [symmetric])
next
  case (ActReadyState st)
  with assms(2) have b: "b = a" by auto
  show ?thesis
    using assms(1) by (simp add: b ActReadyState forget_setReadyState [symmetric])
qed

lemma forget_run:
  "list_all2 sameButMaxRetryCount as bs \<Longrightarrow> forgetInClient w = forgetInClient w' \<Longrightarrow>
   forgetInClient (run as w) = forgetInClient (run bs w')"
proof (induction as bs arbitrary: w w' rule: list_all2_induct)
  case Nil
  then show ?case by simp
next
  case (Cons a as b bs)
  then show ?case by (simp add: forget_step)
qed

lemma observable_forget: "observable (forgetInClient w) = observable w"
proof -
  have "filter isWriteOrResolve (map forgetInEvent h) = filter isWriteOrResolve h" for h
  proof (induction h)
    case Nil
    then show ?case by simp
  next
    case (Cons e h)
    then show ?case by (induction e rule: forgetInEvent.induct) auto
  qed
  then show ?thesis
    by (simp add: observable_def forgetInClient_def forgetMaxRetryCount_def comp_def)
qed

text \<open>
  C5. Two runs that differ only in the \<open>maxRetryCount\<close> given to \<open>sendMessage\<close> have
  the same writes to the transport and the same resolutions, in the same order, and the
  same send and retry records in the registry. And on an open transport a pass retries an
  entry whose window has expired whatever its \<open>maxRetryCount\<close> and however many retries
  it has behind it: the frame is written and one more retry is recorded.
\<close>

theorem maxRetryCount_never_consulted:
  "(list_all2 sameButMaxRetryCount as bs \<longrightarrow> observable (run as w) = observable (run bs w))
   \<and> (connection w = Some c \<and> readyState c = OPEN (WebSocket w) \<and> sent p \<noteq> None
        \<and> writeAllowed (clock w (clockReads w)) (clock w (Suc (clockReads w))) p \<longrightarrow>
        history (snd (sendMessageRequest p w))
          = history w @ [EvSend (sockId c) (frameOf w p (fst (ensureSession w)))]
        \<and> length (retries (fst (sendMessageRequest p w))) = Suc (length (retries p)))"
proof -
  have a: "observable (run as w) = observable (run bs w)"
    if "list_all2 sameButMaxRetryCount as bs"
  proof -
    have "forgetInClient (run as w) = forgetInClient (run bs w)"
      using that by (rule forget_run) simp
    then have "observable (forgetInClient (run as w)) = observable (forgetInClient (run bs w))"
      by simp
    then show ?thesis by (simp only: observable_forget)
  qed
  have b: "history (snd (sendMessageRequest p w))
          = history w @ [EvSend (sockId c) (frameOf w p (fst (ensureSession w)))]
        \<and> length (retries (fst (sendMessageRequest p w))) = Suc (length (retries p))"
    if "connection w = Some c" "readyState c = OPEN (WebSocket w)" "sent p \<noteq> None"
      "writeAllowed (clock w (clockReads w)) (clock w (Suc (clockReads w))) p"
    using that passWrite_fields [OF that(1)]
    by (auto simp: sendMessageRequest_connected [OF that(1,2)] writeAllowed_def
          split: option.splits)
  from a b show ?thesis by blast
qed

theorem maxRetryCount_never_consulted_witness:
  "list_all2 sameButMaxRetryCount
     [ActSendMessage demoRequest (Some 0), ActReadyState 1, ActOpen]
     [ActSendMessage demoRequest (Some 7), ActReadyState 1, ActOpen]
   \<and> observable (run [ActSendMessage demoRequest (Some 0), ActReadyState 1, ActOpen]
                   (demoClient (\<lambda>i. 0)))
     = observable (run [ActSendMessage demoRequest (Some 7), ActReadyState 1, ActOpen]
                   (demoClient (\<lambda>i. 0)))
   \<and> maxRetryCount demoRetried = 1
   \<and> length (retries demoRetried) = 2
   \<and> history (snd (sendMessageRequest demoRetried (demoSent (demoClock 30000))))
       = history (demoSent (demoClock 30000)) @ [EvSend 0 (demoEncode (messageRequest ''1'' demoRequest ''2''))]
   \<and> length (retries (fst (sendMessageRequest demoRetried (demoSent (demoClock 30000))))) = 3"
proof -
  have rel: "list_all2 sameButMaxRetryCount
     [ActSendMessage demoRequest (Some 0), ActReadyState 1, ActOpen]
     [ActSendMessage demoRequest (Some 7), ActReadyState 1, ActOpen]"
    by simp
  have c: "connection (demoSent (demoClock 30000)) = Some (demoSocket 0 1)"
    and opn: "readyState (demoSocket 0 1) = OPEN (WebSocket (demoSent (demoClock 30000)))"
    and s: "sent demoRetried \<noteq> None"
    and wa: "writeAllowed
        (clock (demoSent (demoClock 30000)) (clockReads (demoSent (demoClock 30000))))
        (clock (demoSent (demoClock 30000)) (Suc (clockReads (demoSent (demoClock 30000)))))
        demoRetried"
    and m: "maxRetryCount demoRetried = 1" "length (retries demoRetried) = 2"
    by (simp_all add: demoSent_state demoSocket_def demoWebSocket_def demoClock_def
          demoRetried_def demoEntry_def writeAllowed_def lastRetryOf_def)
  have f: "EvSend (sockId (demoSocket 0 1))
             (frameOf (demoSent (demoClock 30000)) demoRetried
                (fst (ensureSession (demoSent (demoClock 30000)))))
           = EvSend 0 (demoEncode (messageRequest ''1'' demoRequest ''2''))"
    by (simp add: demoSent_state demo_defs demoRetried_def frameOf_def ensureSession_def)
  note t = maxRetryCount_never_consulted
      [of "[ActSendMessage demoRequest (Some 0), ActReadyState 1, ActOpen]"
          "[ActSendMessage demoRequest (Some 7), ActReadyState 1, ActOpen]"
          "demoClient (\<lambda>i. 0)" "demoSocket 0 1" demoRetried]
  note t' = maxRetryCount_never_consulted
      [of "[]" "[]" "demoSent (demoClock 30000)" "demoSocket 0 1" demoRetried]
  have obs: "observable (run [ActSendMessage demoRequest (Some 0), ActReadyState 1, ActOpen]
                   (demoClient (\<lambda>i. 0)))
     = observable (run [ActSendMessage demoRequest (Some 7), ActReadyState 1, ActOpen]
                   (demoClient (\<lambda>i. 0)))"
    using t rel by blast
  have "history (snd (sendMessageRequest demoRetried (demoSent (demoClock 30000))))
       = history (demoSent (demoClock 30000))
           @ [EvSend (sockId (demoSocket 0 1))
                (frameOf (demoSent (demoClock 30000)) demoRetried
                   (fst (ensureSession (demoSent (demoClock 30000)))))]
   \<and> length (retries (fst (sendMessageRequest demoRetried (demoSent (demoClock 30000)))))
       = Suc (length (retries demoRetried))"
    using t' c opn s wa by blast
  then have retry: "history (snd (sendMessageRequest demoRetried (demoSent (demoClock 30000))))
       = history (demoSent (demoClock 30000)) @ [EvSend 0 (demoEncode (messageRequest ''1'' demoRequest ''2''))]
   \<and> length (retries (fst (sendMessageRequest demoRetried (demoSent (demoClock 30000))))) = 3"
    by (simp only: f m) simp
  from rel obs m retry show ?thesis by blast
qed

section \<open>Runs and the registry\<close>





lemma sendMessage_unfold:
  "snd (sendMessage r m w) =
     (snd (sendMessageRequest (newPending r m w) (withPending r m w)))
       \<lparr>pending := pendingSet (toString (fst (randomLong w)))
          (fst (sendMessageRequest (newPending r m w) (withPending r m w)))
          (pending w)\<rparr>"
proof -
  have "pending (snd (sendMessageRequest (newPending r m w) (withPending r m w)))
      = pendingSet (toString (fst (randomLong w))) (newPending r m w) (pending w)"
    using sendMessageRequest_env [of "newPending r m w" "withPending r m w"]
    by (simp add: withPending_def)
  then show ?thesis
    by (simp add: sendMessage_def Let_def split_def randomLong_def newPending_def
          withPending_def pendingSet_twice)
qed


lemma drivePending_env:
  "clock (snd (drivePending ps w)) = clock w
   \<and> codecEncode (snd (drivePending ps w)) = codecEncode w"
  by (induction ps arbitrary: w) (auto simp: split_def Let_def sendMessageRequest_env)

lemma step_env:
  "clock (step a w) = clock w \<and> codecEncode (step a w) = codecEncode w"
proof (cases a)
  case (ActSendMessage r m)
  then show ?thesis
    using sendMessageRequest_env [of "newPending r m w" "withPending r m w"]
    by (simp add: sendMessage_unfold withPending_def)
next
  case ActOpen
  then show ?thesis
    by (simp add: onOpen_def checkPendingRequests_def split_def Let_def drivePending_env)
next
  case (ActClose e)
  then show ?thesis by (simp add: onClose_def connect_def loggerError_def)
next
  case ActError
  then show ?thesis by (simp add: onError_def loggerError_def)
next
  case (ActMessage d)
  from onMessage_cases [of d w] show ?thesis
    by (auto simp: ActMessage loggerError_def callResolve_def deletePending_def)
next
  case (ActReadyState st)
  then show ?thesis by (simp add: setReadyState_def split: option.splits)
qed







lemma pass_session:
  assumes "session w = Some sid"
  shows "session (snd (sendMessageRequest p w)) = Some sid
     \<and> (\<exists>evs. history (snd (sendMessageRequest p w)) = history w @ evs
           \<and> (\<forall>ev\<in>set evs. isWrite ev \<longrightarrow> (\<exists>h. ev = EvSend h (frameOf w p sid))))"
proof (cases "isConnected w")
  case False
  with assms show ?thesis
    by (simp add: sendMessageRequest_not_connected connect_def split: option.splits)
next
  case True
  then obtain c where c: "connection w = Some c" "readyState c = OPEN (WebSocket w)"
    by (auto simp: isConnected_def split: option.splits)
  note f = pass_connected_facts [OF c, of p]
  have es: "fst (ensureSession w) = sid"
    using ensureSession_known [OF assms] by simp
  show ?thesis
    using f(2) by (simp add: f(4) es)
qed

lemma drive_session:
  assumes "session w = Some sid"
  shows "session (snd (drivePending ps w)) = Some sid
     \<and> (\<exists>evs. history (snd (drivePending ps w)) = history w @ evs
           \<and> (\<forall>ev\<in>set evs. isWrite ev \<longrightarrow> (\<exists>h p. ev = EvSend h (frameOf w p sid))))"
  using assms
proof (induction ps arbitrary: w)
  case Nil
  then show ?case by simp
next
  case (Cons e ps)
  obtain k p where e: "e = (k, p)" by (cases e)
  let ?w' = "snd (sendMessageRequest p w)"
  from pass_session [OF Cons.prems, of p] obtain evs where
    s1: "session ?w' = Some sid" and h1: "history ?w' = history w @ evs"
    and a1: "\<forall>ev\<in>set evs. isWrite ev \<longrightarrow> (\<exists>h. ev = EvSend h (frameOf w p sid))"
    by blast
  have fr: "\<And>q. frameOf ?w' q sid = frameOf w q sid"
    using sendMessageRequest_env [of p w] by (simp add: frameOf_def)
  from Cons.IH [OF s1] obtain evs' where
    s2: "session (snd (drivePending ps ?w')) = Some sid"
    and h2: "history (snd (drivePending ps ?w')) = history ?w' @ evs'"
    and a2: "\<forall>ev\<in>set evs'. isWrite ev \<longrightarrow> (\<exists>h q. ev = EvSend h (frameOf w q sid))"
    by (auto simp: fr)
  have "history (snd (drivePending (e # ps) w)) = history w @ (evs @ evs')"
    by (simp add: e split_def Let_def h1 h2)
  moreover have "\<forall>ev\<in>set evs. isWrite ev \<longrightarrow> (\<exists>h q. ev = EvSend h (frameOf w q sid))"
    using a1 by blast
  then have "\<forall>ev\<in>set (evs @ evs'). isWrite ev \<longrightarrow> (\<exists>h q. ev = EvSend h (frameOf w q sid))"
    using a2 by auto
  moreover have "session (snd (drivePending (e # ps) w)) = Some sid"
    using s2 by (simp add: e split_def Let_def)
  ultimately show ?case by blast
qed

lemma step_session:
  assumes "session w = Some sid"
  shows "session (step a w) = Some sid
     \<and> (\<exists>evs. history (step a w) = history w @ evs
           \<and> (\<forall>ev\<in>set evs. isWrite ev \<longrightarrow> (\<exists>h p. ev = EvSend h (frameOf w p sid))))"
proof (cases a)
  case (ActSendMessage r m)
  have s: "session (withPending r m w) = Some sid"
    and h: "history (withPending r m w) = history w"
    and fr: "\<And>q. frameOf (withPending r m w) q sid = frameOf w q sid"
    using assms by (simp_all add: withPending_def frameOf_def)
  from pass_session [OF s, of "newPending r m w"] obtain evs where
    s1: "session (snd (sendMessageRequest (newPending r m w) (withPending r m w))) = Some sid"
    and h1: "history (snd (sendMessageRequest (newPending r m w) (withPending r m w)))
               = history w @ evs"
    and a1: "\<forall>ev\<in>set evs. isWrite ev \<longrightarrow> (\<exists>h. ev = EvSend h (frameOf w (newPending r m w) sid))"
    by (auto simp: h fr)
  from a1 have "\<forall>ev\<in>set evs. isWrite ev \<longrightarrow> (\<exists>h p. ev = EvSend h (frameOf w p sid))"
    by blast
  with s1 h1 show ?thesis
    by (simp add: ActSendMessage sendMessage_unfold)
next
  case ActOpen
  with drive_session [OF assms, of "pending w"] show ?thesis
    by (simp add: onOpen_fields)
next
  case (ActClose e)
  with assms show ?thesis
    by (simp add: onClose_def connect_def loggerError_def)
next
  case ActError
  with assms show ?thesis by (simp add: onError_def loggerError_def)
next
  case (ActReadyState st)
  with assms show ?thesis by (simp add: setReadyState_def split: option.splits)
next
  case (ActMessage d)
  from onMessage_cases [of d w] assms show ?thesis
    by (auto simp: ActMessage loggerError_def callResolve_def deletePending_def)
qed

lemma run_session:
  assumes "session w = Some sid"
  shows "session (run as w) = Some sid
     \<and> (\<exists>evs. history (run as w) = history w @ evs
           \<and> (\<forall>ev\<in>set evs. isWrite ev \<longrightarrow> (\<exists>h p. ev = EvSend h (frameOf w p sid))))"
  using assms
proof (induction as arbitrary: w)
  case Nil
  then show ?case by simp
next
  case (Cons a as)
  from step_session [OF Cons.prems, of a] obtain evs where
    s1: "session (step a w) = Some sid" and h1: "history (step a w) = history w @ evs"
    and a1: "\<forall>ev\<in>set evs. isWrite ev \<longrightarrow> (\<exists>h p. ev = EvSend h (frameOf w p sid))"
    by blast
  have fr: "\<And>q. frameOf (step a w) q sid = frameOf w q sid"
    using step_env [of a w] by (simp add: frameOf_def)
  from Cons.IH [OF s1] obtain evs' where
    s2: "session (run as (step a w)) = Some sid"
    and h2: "history (run as (step a w)) = history (step a w) @ evs'"
    and a2: "\<forall>ev\<in>set evs'. isWrite ev \<longrightarrow> (\<exists>h p. ev = EvSend h (frameOf w p sid))"
    by (auto simp: fr)
  have "history (run (a # as) w) = history w @ (evs @ evs')"
    by (simp add: h1 h2)
  moreover have "\<forall>ev\<in>set (evs @ evs'). isWrite ev \<longrightarrow> (\<exists>h p. ev = EvSend h (frameOf w p sid))"
    using a1 a2 by auto
  ultimately show ?case using s2 by (metis run.simps(2))
qed





section \<open>The session over runs\<close>

text \<open>
  C1, as the code has it. A close event discards the transport and puts a new one in its
  place; the session is kept. So when the next transport has opened, every frame that
  the open event writes carries the session id that was in use before the close. And
  nothing ever resets the session: once it is there, it is the same after every run of
  calls and events, and every frame written in the run carries its id.
\<close>

theorem close_keeps_session:
  "session (onClose e w) = session w
   \<and> connection (onClose e w) =
       Some \<lparr>sockId = socketCount w, sockUrl = url w, readyState = CONNECTING (WebSocket w),
             binaryType = ''arraybuffer'',
             listeners = [''close'', ''error'', ''open'', ''message'']\<rparr>
   \<and> (session w = Some sid \<longrightarrow>
        session (onOpen (setReadyState (OPEN (WebSocket w)) (onClose e w))) = Some sid
        \<and> (\<exists>evs. history (onOpen (setReadyState (OPEN (WebSocket w)) (onClose e w)))
                    = history (onClose e w) @ evs
              \<and> (\<forall>ev\<in>set evs. \<exists>p\<in>snd ` set (pending w).
                     ev = EvSend (socketCount w) (frameOf w p sid))))
   \<and> (session w = Some sid \<longrightarrow>
        session (run as w) = Some sid
        \<and> (\<forall>ev\<in>set (drop (length (history w)) (history (run as w))).
               isWrite ev \<longrightarrow> (\<exists>h p. ev = EvSend h (frameOf w p sid))))"
proof -
  let ?c = "\<lparr>sockId = socketCount w, sockUrl = url w, readyState = OPEN (WebSocket w),
             binaryType = ''arraybuffer'',
             listeners = [''close'', ''error'', ''open'', ''message'']\<rparr>"
  let ?w1 = "setReadyState (OPEN (WebSocket w)) (onClose e w)"
  have a: "session (onClose e w) = session w"
    by (simp add: onClose_def connect_def loggerError_def)
  have b: "connection (onClose e w) =
       Some \<lparr>sockId = socketCount w, sockUrl = url w, readyState = CONNECTING (WebSocket w),
             binaryType = ''arraybuffer'',
             listeners = [''close'', ''error'', ''open'', ''message'']\<rparr>"
    by (simp add: onClose_def connect_def loggerError_def)
  have c: "session (onOpen ?w1) = Some sid
        \<and> (\<exists>evs. history (onOpen ?w1) = history (onClose e w) @ evs
              \<and> (\<forall>ev\<in>set evs. \<exists>p\<in>snd ` set (pending w).
                     ev = EvSend (socketCount w) (frameOf w p sid)))"
    if sid: "session w = Some sid"
  proof -
    have conn: "connection ?w1 = Some ?c" and rs: "readyState ?c = OPEN (WebSocket ?w1)"
      and s1: "session ?w1 = Some sid" and p1: "pending ?w1 = pending w"
      and h1: "history ?w1 = history (onClose e w)"
      and f1: "\<And>q. frameOf ?w1 q sid = frameOf w q sid"
      using sid by (simp_all add: reopened_state onClose_history frameOf_def)
    from drivePending_session [OF conn rs s1, of "pending w"] show ?thesis
      by (simp add: onOpen_fields p1 h1 f1)
  qed
  have d: "session (run as w) = Some sid
        \<and> (\<forall>ev\<in>set (drop (length (history w)) (history (run as w))).
               isWrite ev \<longrightarrow> (\<exists>h p. ev = EvSend h (frameOf w p sid)))"
    if sid: "session w = Some sid"
  proof -
    from run_session [OF sid, of as] obtain evs where
      "session (run as w) = Some sid" "history (run as w) = history w @ evs"
      "\<forall>ev\<in>set evs. isWrite ev \<longrightarrow> (\<exists>h p. ev = EvSend h (frameOf w p sid))"
      by blast
    then show ?thesis by simp
  qed
  from a b c d show ?thesis by blast
qed

theorem close_keeps_session_witness:
  "session (demoSent (demoClock 10000)) = Some 2
   \<and> session (onClose demoClose (demoSent (demoClock 10000))) = Some 2
   \<and> connection (onClose demoClose (demoSent (demoClock 10000))) = Some (demoSocket 1 0)
   \<and> session (onOpen (setReadyState 1 (onClose demoClose (demoSent (demoClock 10000)))))
       = Some 2
   \<and> session (run [ActClose demoClose, ActError, ActMessage (ArrayBuffer [1]),
                    ActSendMessage demoRequest None, ActReadyState 1, ActOpen,
                    ActMessage (ArrayBuffer [2])]
                 (demoSent (demoClock 10000))) = Some 2"
proof -
  have s: "session (demoSent (demoClock 10000)) = Some 2"
    by (simp add: demoSent_state)
  note t = close_keeps_session
      [of demoClose "demoSent (demoClock 10000)" 2
          "[ActClose demoClose, ActError, ActMessage (ArrayBuffer [1]),
            ActSendMessage demoRequest None, ActReadyState 1, ActOpen,
            ActMessage (ArrayBuffer [2])]"]
  have r: "session (run [ActClose demoClose, ActError, ActMessage (ArrayBuffer [1]),
                    ActSendMessage demoRequest None, ActReadyState 1, ActOpen,
                    ActMessage (ArrayBuffer [2])]
                 (demoSent (demoClock 10000))) = Some 2"
    using t s by blast
  have "session (onClose demoClose (demoSent (demoClock 10000))) = Some 2
   \<and> connection (onClose demoClose (demoSent (demoClock 10000))) = Some (demoSocket 1 0)
   \<and> session (onOpen (setReadyState 1 (onClose demoClose (demoSent (demoClock 10000)))))
       = Some 2"
    using t by (simp add: demoSent_state demoSocket_def demoWebSocket_def)
  with s r show ?thesis by blast
qed

text \<open>
  C1 as it is stated fails: the request written with session id 2 on the first transport
  is, after the close and the next open, written on the second transport with the same
  session id 2.
\<close>

theorem session_not_renewed_counterexample:
  "session (demoSent (demoClock 10000)) = Some 2
   \<and> history (demoSent (demoClock 10000))
       = [EvConstruct 0 ''ws://host'', EvSend 0 (demoEncode (messageRequest ''1'' demoRequest ''2''))]
   \<and> session (demoReopened 10000) = Some 2
   \<and> history (demoReopened 10000)
       = [EvConstruct 0 ''ws://host'', EvSend 0 (demoEncode (messageRequest ''1'' demoRequest ''2'')),
          EvLoggerError (ReceivedCloseEvent demoClose), EvConstruct 1 ''ws://host'',
          EvSend 1 (demoEncode (messageRequest ''1'' demoRequest ''2''))]"
  by (simp add: demoSent_state demoReopened_late)

section \<open>The retry window\<close>



end
